theory Spec2Isabelle
  imports Complex_Main "HOL-Library.Signed_Division"
begin

section \<open>SpeckMAC-D: the data model of SpeckMacModule\<close>

text \<open>
  The module is the C++ class \<open>SpeckMacModule\<close> of \<open>SpeckMacModule.h\<close> and
  \<open>SpeckMacModule.cc\<close>, an OMNeT++ simple module. Its member variables become the
  fields of one record, its member functions become functions that take the record and
  return the updated one.

  Conventions of the embedding:
  \<^item> \<open>int\<close> members are HOL integers. The buffer indices stay within \<open>-1 .. macBufferSize\<close>
    in the runs studied here, so no 32-bit wrap-around arises on them; the C remainder
    \<open>%\<close> is the truncating \<open>smod\<close>. Where the source computes in \<open>int\<close> a value that can
    leave the 32 bits, the wrap-around is written out (\<open>wrap32\<close>: the product in
    \<open>carrierBusy\<close>, the result of \<open>atoi\<close>, the length in \<open>encapsulateNetworkFrame\<close>;
    \<open>wrap64\<close> for the \<open>long\<close> in \<open>popTxBuffer\<close>), and the increment of a loop counter
    that stands at \<open>INT_MAX\<close> is an error of the model.
  \<^item> The air time \<open>dataTXtime\<close> and the redundancy that \<open>popTxBuffer\<close> takes from it are
    computed as the program computes them, in IEEE 754 double precision: every operation
    is the exact operation followed by the rounding \<open>fl\<close> to the nearest double, ties to
    the even mantissa, with the infinities and NaN (section \<open>Double precision\<close>). The
    member \<open>dataTXtime\<close> holds such a double.
  \<^item> The other \<open>double\<close> members, and the simulation time, are real numbers: they are
    times and factors that are added and multiplied to give the arrival time of a message,
    and the rounding of this arithmetic is not modelled. A window or a delay that is not
    a finite number is an error of the model. \<open>scheduleAt\<close> with a time in the past, which
    the kernel refuses, is not modelled: the properties of the timers are stated for
    delays that are not negative.
  \<^item> A pointer to a message is an optional identity (a natural number, \<open>None\<close> for
    \<open>NULL\<close>); identities are never reused, so a pointer to a deleted message is a message
    that is not scheduled.
  \<^item> The simulation kernel is the part of the record below the line: the current time,
    the future event set holding the self-messages (\<open>scheduleAt\<close>, \<open>cancelAndDelete\<close>,
    \<open>isScheduled\<close>), the messages handed to the gates \<open>toRadioModule\<close> and
    \<open>toNetworkModule\<close>, the stream \<open>ev\<close>, the random numbers of \<open>dblrand\<close> and the
    answer of the radio to \<open>isCarrierSenseValid\<close>.
  \<^item> The debug stream \<open>CASTALIA_DEBUG\<close> and the message names are not modelled.
\<close>

datatype MacStates =
    MAC_STATE_DEFAULT
  | MAC_STATE_TX
  | MAC_STATE_CARRIER_SENSING
  | MAC_STATE_EXPECTING_RX
  | MAC_STATE_TRY_TX

text \<open>The message kinds the module reads or writes (enumerations of the message headers).\<close>

datatype MsgKind =
    APP_NODE_STARTUP
  | MAC_SELF_SET_RADIO_SLEEP
  | MAC_SELF_WAKEUP_RADIO
  | NET_FRAME
  | MAC_FRAME_SELF_PUSH_TX_BUFFER
  | MAC_SELF_INITIATE_TX
  | MAC_SELF_PERFORM_CARRIER_SENSE
  | RADIO_2_MAC_SENSED_CARRIER
  | MAC_SELF_EXIT_CARRIER_SENSE
  | MAC_SELF_CHECK_TX_BUFFER
  | RADIO_2_MAC_STARTED_TX
  | RADIO_2_MAC_STOPPED_TX
  | MAC_FRAME
  | RESOURCE_MGR_OUT_OF_ENERGY
  | MAC_2_RADIO_ENTER_SLEEP
  | MAC_2_RADIO_ENTER_LISTEN
  | MAC_2_RADIO_ENTER_TX
  | MAC_2_RADIO_SENSE_CARRIER
  | MAC_2_NETWORK_FULL_BUFFER
  | OTHER_KIND int

datatype MacFrameType = MAC_PROTO_DATA_FRAME | OTHER_FRAME_TYPE int

text \<open>The return codes of \<open>RadioModule::isCarrierSenseValid\<close>; \<open>CS_VALID\<close> is the code 1.\<close>

datatype CarrierSenseReply =
    CS_VALID
  | RADIO_IN_TX_MODE
  | RADIO_SLEEPING
  | RADIO_NON_READY
  | CS_OTHER_CODE int

record Network_GenericFrame =
  net_kind :: MsgKind
  net_byteLength :: int
  destCtrl :: string

record MAC_GenericFrame =
  mac_kind :: MsgKind
  mac_byteLength :: int
  srcID :: int
  destID :: int
  frameType :: MacFrameType
  encapsulatedMsg :: "Network_GenericFrame option"

text \<open>
  A message is a control message (its kind and its field \<open>sense_carrier_interval\<close>), a
  network frame or a MAC frame.
\<close>

datatype cMessage =
    ControlMessage MsgKind real
  | NetworkFrame Network_GenericFrame
  | MacFrame MAC_GenericFrame

fun kind :: "cMessage \<Rightarrow> MsgKind" where
  "kind (ControlMessage k i) = k"
| "kind (NetworkFrame f) = net_kind f"
| "kind (MacFrame f) = mac_kind f"

text \<open>A self-message in the future event set: its identity, its arrival time, its content.\<close>

record ScheduledMsg =
  ptr :: nat
  arrivalTime :: real
  content :: cMessage

datatype error =
    CastError
  | WildPointer
  | IndexOutOfBounds
  | NonFiniteDouble
  | IntOutOfRange
  | IntOverflow
  | UnknownRadioState

subsection \<open>Double precision\<close>

text \<open>
  A double is a finite number, one of the two infinities, or NaN. The finite doubles are
  the numbers \<open>m * 2^k\<close> with \<open>\<bar>m\<bar> < 2^53\<close> and \<open>-1074 \<le> k \<le> 971\<close>; the two zeros are not
  told apart (a zero divisor counts as \<open>+0\<close>).
\<close>

datatype double = Finite real | PlusInf | MinusInf | NaN

definition pow2 :: "int \<Rightarrow> real" where
  "pow2 k = 2 powi k"

text \<open>Rounding to the nearest integer, a tie to the even one.\<close>

definition rne :: "real \<Rightarrow> int" where
  "rne x = (let f = \<lfloor>x\<rfloor>; d = x - real_of_int f
            in if d < 1 / 2 then f else if 1 / 2 < d then f + 1 else if even f then f else f + 1)"

text \<open>
  The binary exponent \<open>e\<close> of a positive number \<open>x\<close>, \<open>2^e \<le> x < 2^(e+1)\<close>, found by a
  search from 0 that takes a step for each unit of \<open>e\<close>. It is used for numbers between
  \<open>2^-1022\<close> and \<open>2^1024\<close>, for which 1100 steps are enough (lemma \<open>ilog2_bracket\<close>).
\<close>

fun ilog2_from :: "nat \<Rightarrow> int \<Rightarrow> real \<Rightarrow> int" where
  "ilog2_from 0 e x = e"
| "ilog2_from (Suc n) e x =
     (if x < pow2 e then ilog2_from n (e - 1) x
      else if pow2 (e + 1) \<le> x then ilog2_from n (e + 1) x
      else e)"

definition ilog2 :: "real \<Rightarrow> int" where
  "ilog2 x = ilog2_from 1100 0 x"

text \<open>
  \<open>fl x\<close> is the double that a real number \<open>x\<close> is rounded to: the nearest multiple of
  the unit in the last place \<open>2^(e-52)\<close> of its binade (of \<open>2^-1074\<close> below \<open>2^-1022\<close>),
  a tie to the even multiple, and an infinity when the rounded number reaches \<open>2^1024\<close>.
\<close>

definition fl :: "real \<Rightarrow> double" where
  "fl x =
     (if 2 ^ 1024 \<le> \<bar>x\<bar> then (if 0 < x then PlusInf else MinusInf)
      else
        (let k = (if \<bar>x\<bar> < pow2 (- 1022) then - 1074 else ilog2 \<bar>x\<bar> - 52);
             y = real_of_int (rne (x / pow2 k)) * pow2 k
         in if 2 ^ 1024 \<le> \<bar>y\<bar> then (if 0 < x then PlusInf else MinusInf) else Finite y))"

text \<open>The conversion \<open>(double) i\<close> of an integer, and the three operations of the source.\<close>

definition d_of_int :: "int \<Rightarrow> double" where
  "d_of_int i = fl (real_of_int i)"

fun d_add :: "double \<Rightarrow> double \<Rightarrow> double" where
  "d_add (Finite x) (Finite y) = fl (x + y)"
| "d_add NaN b = NaN"
| "d_add a NaN = NaN"
| "d_add PlusInf MinusInf = NaN"
| "d_add MinusInf PlusInf = NaN"
| "d_add PlusInf b = PlusInf"
| "d_add MinusInf b = MinusInf"
| "d_add a PlusInf = PlusInf"
| "d_add a MinusInf = MinusInf"

fun d_mul :: "double \<Rightarrow> double \<Rightarrow> double" where
  "d_mul (Finite x) (Finite y) = fl (x * y)"
| "d_mul NaN b = NaN"
| "d_mul a NaN = NaN"
| "d_mul (Finite x) PlusInf = (if x = 0 then NaN else if 0 < x then PlusInf else MinusInf)"
| "d_mul (Finite x) MinusInf = (if x = 0 then NaN else if 0 < x then MinusInf else PlusInf)"
| "d_mul PlusInf (Finite y) = (if y = 0 then NaN else if 0 < y then PlusInf else MinusInf)"
| "d_mul MinusInf (Finite y) = (if y = 0 then NaN else if 0 < y then MinusInf else PlusInf)"
| "d_mul PlusInf PlusInf = PlusInf"
| "d_mul MinusInf MinusInf = PlusInf"
| "d_mul PlusInf MinusInf = MinusInf"
| "d_mul MinusInf PlusInf = MinusInf"

fun d_div :: "double \<Rightarrow> double \<Rightarrow> double" where
  "d_div (Finite x) (Finite y) =
     (if y = 0 then (if x = 0 then NaN else if 0 < x then PlusInf else MinusInf) else fl (x / y))"
| "d_div NaN b = NaN"
| "d_div a NaN = NaN"
| "d_div (Finite x) PlusInf = Finite 0"
| "d_div (Finite x) MinusInf = Finite 0"
| "d_div PlusInf (Finite y) = (if 0 \<le> y then PlusInf else MinusInf)"
| "d_div MinusInf (Finite y) = (if 0 \<le> y then MinusInf else PlusInf)"
| "d_div PlusInf b = NaN"
| "d_div MinusInf b = NaN"

text \<open>
  The conversion \<open>(int) x\<close> of a double: the fractional part is discarded (truncation
  towards zero). When the result does not fit a 32-bit \<open>int\<close>, and for an infinity or
  NaN, the C++ standard leaves the behaviour undefined; the value taken here is the one
  that the conversion instruction of x86-64 (\<open>cvttsd2si\<close>) returns, \<open>INT_MIN\<close>.
\<close>

definition d_to_int :: "double \<Rightarrow> int" where
  "d_to_int d =
     (case d of
        Finite x \<Rightarrow>
          (let t = (if 0 \<le> x then \<lfloor>x\<rfloor> else \<lceil>x\<rceil>)
           in if - 2147483648 \<le> t \<and> t \<le> 2147483647 then t else - 2147483648)
      | _ \<Rightarrow> - 2147483648)"

text \<open>
  The time that a double stands for when it is used as a delay: a delay that is not a
  finite number is outside the model of the kernel.
\<close>

definition timeValue :: "double \<Rightarrow> error + real" where
  "timeValue d = (case d of Finite x \<Rightarrow> Inr x | _ \<Rightarrow> Inl NonFiniteDouble)"

text \<open>
  The value that an integer has as a 32-bit \<open>int\<close>, and as a 64-bit \<open>long\<close> (two's
  complement).
\<close>

definition wrap32 :: "int \<Rightarrow> int" where
  "wrap32 i = (i + 2147483648) mod 4294967296 - 2147483648"

definition wrap64 :: "int \<Rightarrow> int" where
  "wrap64 i = (i + 9223372036854775808) mod 18446744073709551616 - 9223372036854775808"

subsection \<open>The module\<close>

record SpeckMacModule =
  sleepInterval :: real
  listenInterval :: real
  randomTxOffset :: real
  maxMacFrameSize :: int
  macBufferSize :: int
  macFrameOverhead :: int
  schedTXBuffer :: "MAC_GenericFrame option list"
  dutyCycleSleepMsg :: "nat option"
  dutyCycleWakeupMsg :: "nat option"
  selfExitCSMsg :: "nat option"
  doTx :: bool
  self :: int
  macState :: MacStates
  headTxBuffer :: int
  tailTxBuffer :: int
  disabled :: bool
  phyLayerOverhead :: int
  redundancy :: int
  epsilon :: real
  cpuClockDrift :: real
  radioDataRate :: real
  radioDelayForValidCS :: real
  dataTXtime :: double
  lastWakeupTime :: real
  \<comment> \<open>the simulation kernel and the collaborators\<close>
  simTime :: real
  fes :: "ScheduledMsg list"
  nextPtr :: nat
  toRadioModule :: "(real \<times> cMessage) list"
  toNetworkModule :: "cMessage list"
  ev :: "string list"
  dblrandSeq :: "nat \<Rightarrow> real"
  dblrandPos :: nat
  radioCarrierSenseValid :: CarrierSenseReply
  BROADCAST_ADDR :: int

subsection \<open>Errors and the macros of the header\<close>

definition ebind :: "error + 'a \<Rightarrow> ('a \<Rightarrow> error + 'b) \<Rightarrow> error + 'b" where
  "ebind m f = (case m of Inl e \<Rightarrow> Inl e | Inr x \<Rightarrow> f x)"

definition SLEEP :: int where "SLEEP = 0"

definition WAKEUP :: int where "WAKEUP = 1"

definition CARRIER_SENSE_INTERVAL :: real where "CARRIER_SENSE_INTERVAL = 1 / 10000"

definition MAC_BUFFER_ARRAY_SIZE :: "SpeckMacModule \<Rightarrow> int" where
  "MAC_BUFFER_ARRAY_SIZE s = macBufferSize s + 1"

definition BUFFER_IS_EMPTY :: "SpeckMacModule \<Rightarrow> bool" where
  "BUFFER_IS_EMPTY s = (headTxBuffer s = tailTxBuffer s)"

definition DRIFTED_TIME :: "SpeckMacModule \<Rightarrow> real \<Rightarrow> real" where
  "DRIFTED_TIME s t = t * cpuClockDrift s"

subsection \<open>The simulation kernel\<close>

definition isScheduled :: "nat \<Rightarrow> SpeckMacModule \<Rightarrow> bool" where
  "isScheduled p s = (p \<in> set (map ptr (fes s)))"

definition cancelAndDelete :: "nat \<Rightarrow> SpeckMacModule \<Rightarrow> SpeckMacModule" where
  "cancelAndDelete p s = s\<lparr>fes := filter (\<lambda>e. ptr e \<noteq> p) (fes s)\<rparr>"

text \<open>\<open>new\<close> of a message: a fresh identity.\<close>

definition newMessage :: "SpeckMacModule \<Rightarrow> nat \<times> SpeckMacModule" where
  "newMessage s = (nextPtr s, s\<lparr>nextPtr := nextPtr s + 1\<rparr>)"

definition scheduleAt :: "real \<Rightarrow> nat \<Rightarrow> cMessage \<Rightarrow> SpeckMacModule \<Rightarrow> SpeckMacModule" where
  "scheduleAt t p m s = s\<lparr>fes := fes s @ [\<lparr>ptr = p, arrivalTime = t, content = m\<rparr>]\<rparr>"

text \<open>\<open>scheduleAt(t, new MAC_ControlMessage(name, k))\<close>, the pointer not kept.\<close>

definition scheduleNew :: "real \<Rightarrow> MsgKind \<Rightarrow> SpeckMacModule \<Rightarrow> SpeckMacModule" where
  "scheduleNew t k s = (case newMessage s of (p, s1) \<Rightarrow> scheduleAt t p (ControlMessage k 0) s1)"

definition sendDelayed :: "cMessage \<Rightarrow> real \<Rightarrow> SpeckMacModule \<Rightarrow> SpeckMacModule" where
  "sendDelayed m delay s = s\<lparr>toRadioModule := toRadioModule s @ [(delay, m)]\<rparr>"

definition sendToNetwork :: "cMessage \<Rightarrow> SpeckMacModule \<Rightarrow> SpeckMacModule" where
  "sendToNetwork m s = s\<lparr>toNetworkModule := toNetworkModule s @ [m]\<rparr>"

definition dblrand :: "SpeckMacModule \<Rightarrow> real \<times> SpeckMacModule" where
  "dblrand s = (dblrandSeq s (dblrandPos s), s\<lparr>dblrandPos := dblrandPos s + 1\<rparr>)"

text \<open>The pattern \<open>(m != NULL) && (m->isScheduled())\<close>.\<close>

definition pending :: "nat option \<Rightarrow> SpeckMacModule \<Rightarrow> bool" where
  "pending m s = (case m of None \<Rightarrow> False | Some p \<Rightarrow> isScheduled p s)"

definition cancelIfPending :: "nat option \<Rightarrow> SpeckMacModule \<Rightarrow> SpeckMacModule" where
  "cancelIfPending m s = (case m of None \<Rightarrow> s | Some p \<Rightarrow> if isScheduled p s then cancelAndDelete p s else s)"

subsection \<open>setRadioState\<close>

definition setRadioState :: "MsgKind \<Rightarrow> real \<Rightarrow> SpeckMacModule \<Rightarrow> error + SpeckMacModule" where
  "setRadioState typeID delay s =
     (if typeID \<noteq> MAC_2_RADIO_ENTER_SLEEP \<and> typeID \<noteq> MAC_2_RADIO_ENTER_LISTEN
         \<and> typeID \<noteq> MAC_2_RADIO_ENTER_TX
      then Inl UnknownRadioState
      else Inr (sendDelayed (ControlMessage typeID 0) delay s))"

section \<open>The transmit queue\<close>

definition getTXBufferSize :: "SpeckMacModule \<Rightarrow> int" where
  "getTXBufferSize s =
     (let size = tailTxBuffer s - headTxBuffer s
      in if size < 0 then size + MAC_BUFFER_ARRAY_SIZE s else size)"

definition BUFFER_IS_FULL :: "SpeckMacModule \<Rightarrow> bool" where
  "BUFFER_IS_FULL s = (getTXBufferSize s \<ge> macBufferSize s)"

text \<open>
  Reading the slot \<open>schedTXBuffer[i]\<close> and following the pointer found there. A slot that
  was never written holds an indeterminate pointer (\<open>None\<close>).
\<close>

definition readSlot :: "SpeckMacModule \<Rightarrow> int \<Rightarrow> error + MAC_GenericFrame" where
  "readSlot s i =
     (if i < 0 \<or> int (length (schedTXBuffer s)) \<le> i then Inl IndexOutOfBounds
      else case schedTXBuffer s ! nat i of None \<Rightarrow> Inl WildPointer | Some f \<Rightarrow> Inr f)"

definition writeSlot :: "int \<Rightarrow> MAC_GenericFrame \<Rightarrow> SpeckMacModule \<Rightarrow> error + SpeckMacModule" where
  "writeSlot i f s =
     (if i < 0 \<or> int (length (schedTXBuffer s)) \<le> i then Inl IndexOutOfBounds
      else Inr (s\<lparr>schedTXBuffer := (schedTXBuffer s)[nat i := Some f]\<rparr>))"

text \<open>
  \<open>popTxBuffer\<close>. The statements that compute the air time and the redundancy are
  \<open>dataTXtime = (double)(byteLength + phyLayerOverhead) * 8.0 / (1000.0 * radioDataRate)\<close>
  and \<open>redundancy = (int)((sleepInterval / dataTXtime) + 0.5)\<close>; the members
  \<open>radioDataRate\<close> and \<open>sleepInterval\<close> hold the doubles nearest to the configured values.
  The sum of the two lengths is a \<open>long\<close>.
\<close>

definition popTxBuffer :: "SpeckMacModule \<Rightarrow> error + (MAC_GenericFrame option \<times> SpeckMacModule)" where
  "popTxBuffer s =
     (if tailTxBuffer s = headTxBuffer s then
        Inr (None, s\<lparr>ev := ev s @ [CHR 0x0A # ''Trying to pop  EMPTY TxBuffer!!''],
                     tailTxBuffer := tailTxBuffer s - 1\<rparr>)
      else
        ebind (readSlot s (headTxBuffer s)) (\<lambda>dataFrame.
          (let t = d_div (d_mul (d_of_int (wrap64 (mac_byteLength dataFrame + phyLayerOverhead s)))
                                (Finite 8))
                         (d_mul (Finite 1000) (fl (radioDataRate s)));
               r = d_to_int (d_add (d_div (fl (sleepInterval s)) t) (Finite (1 / 2)))
           in Inr (Some dataFrame,
                   s\<lparr>dataTXtime := t, redundancy := r,
                     headTxBuffer := (headTxBuffer s + 1) smod MAC_BUFFER_ARRAY_SIZE s\<rparr>))))"

text \<open>\<open>pushBuffer\<close> returns 1 when the frame was stored and 0 when it was not.\<close>

definition pushBuffer :: "MAC_GenericFrame option \<Rightarrow> SpeckMacModule \<Rightarrow> error + (int \<times> SpeckMacModule)" where
  "pushBuffer theFrame s =
     (case theFrame of
        None \<Rightarrow> Inr (0, s)
      | Some f \<Rightarrow>
          (let s1 = s\<lparr>tailTxBuffer := (tailTxBuffer s + 1) smod MAC_BUFFER_ARRAY_SIZE s\<rparr>
           in if tailTxBuffer s1 = headTxBuffer s1 then
                (if tailTxBuffer s1 = 0
                 then Inr (0, s1\<lparr>tailTxBuffer := MAC_BUFFER_ARRAY_SIZE s1 - 1\<rparr>)
                 else Inr (0, s1\<lparr>tailTxBuffer := tailTxBuffer s1 - 1\<rparr>))
              else
                (let f1 = f\<lparr>mac_kind := MAC_FRAME\<rparr>
                 in ebind (if tailTxBuffer s1 = 0
                           then writeSlot (MAC_BUFFER_ARRAY_SIZE s1 - 1) f1 s1
                           else writeSlot (tailTxBuffer s1 - 1) f1 s1)
                      (\<lambda>s2. Inr (1, s2)))))"

text \<open>
  \<open>pushFrameIntoBuffer\<close> handles the self-message \<open>MAC_FRAME_SELF_PUSH_TX_BUFFER\<close>: it
  stores a duplicate of the frame, or tells the network module that the buffer is full.
\<close>

definition pushFrameIntoBuffer :: "cMessage \<Rightarrow> SpeckMacModule \<Rightarrow> error + SpeckMacModule" where
  "pushFrameIntoBuffer msg s =
     (if \<not> BUFFER_IS_FULL s then
        (case msg of
           MacFrame dataFrame \<Rightarrow> ebind (pushBuffer (Some dataFrame) s) (\<lambda>(r, s1). Inr s1)
         | _ \<Rightarrow> Inl CastError)
      else Inr (sendToNetwork (ControlMessage MAC_2_NETWORK_FULL_BUFFER 0) s))"

section \<open>The frame codec\<close>

text \<open>\<open>sprintf(buff, "%i", n)\<close>: the decimal digits of an \<open>int\<close>.\<close>

fun show_nat :: "nat \<Rightarrow> string" where
  "show_nat n = (if n < 10 then [char_of (48 + n)] else show_nat (n div 10) @ [char_of (48 + n mod 10)])"

definition show_int :: "int \<Rightarrow> string" where
  "show_int i = (if i < 0 then CHR ''-'' # show_nat (nat (- i)) else show_nat (nat i))"

text \<open>
  \<open>atoi\<close>: leading white space, an optional sign, then the digits up to the first
  character that is not one. \<open>atoi\<close> is \<open>(int) strtol\<close>: the number is clamped to the
  range of \<open>long\<close> (64 bits), and its low 32 bits are the result.
\<close>

definition clamp_long :: "int \<Rightarrow> int" where
  "clamp_long i = max (- 9223372036854775808) (min 9223372036854775807 i)"

definition is_digit :: "char \<Rightarrow> bool" where
  "is_digit c = (48 \<le> (of_char c :: nat) \<and> (of_char c :: nat) \<le> 57)"

definition is_space :: "char \<Rightarrow> bool" where
  "is_space c = ((of_char c :: nat) = 32 \<or> (9 \<le> (of_char c :: nat) \<and> (of_char c :: nat) \<le> 13))"

fun atoi_digits :: "int \<Rightarrow> string \<Rightarrow> int" where
  "atoi_digits acc [] = acc"
| "atoi_digits acc (c # cs) =
     (if is_digit c then atoi_digits (acc * 10 + (of_char c - 48)) cs else acc)"

definition atoi :: "string \<Rightarrow> int" where
  "atoi str =
     wrap32 (clamp_long
       (case dropWhile is_space str of
          [] \<Rightarrow> 0
        | c # cs \<Rightarrow>
            if c = CHR ''-'' then - atoi_digits 0 cs
            else if c = CHR ''+'' then atoi_digits 0 cs
            else atoi_digits 0 (c # cs)))"

definition resolvDestination :: "SpeckMacModule \<Rightarrow> string \<Rightarrow> int" where
  "resolvDestination s routingDestination =
     (if routingDestination = show_int (BROADCAST_ADDR s) then BROADCAST_ADDR s
      else atoi routingDestination)"

text \<open>\<open>new MAC_GenericFrame(name, k)\<close>: no length, no header, nothing encapsulated.\<close>

definition new_MAC_GenericFrame :: "MsgKind \<Rightarrow> MAC_GenericFrame" where
  "new_MAC_GenericFrame k =
     \<lparr>mac_kind = k, mac_byteLength = 0, srcID = 0, destID = 0,
      frameType = OTHER_FRAME_TYPE 0, encapsulatedMsg = None\<rparr>"

text \<open>
  \<open>encapsulateNetworkFrame\<close> returns 0 for an oversized packet, else 1 and the filled
  frame; \<open>encapsulate\<close> adds the length of the encapsulated message to the frame's.
  The total length is a \<open>long\<close> stored in an \<open>int\<close>.
\<close>

definition encapsulateNetworkFrame ::
  "SpeckMacModule \<Rightarrow> Network_GenericFrame \<Rightarrow> MAC_GenericFrame \<Rightarrow> int \<times> MAC_GenericFrame" where
  "encapsulateNetworkFrame s networkFrame retFrame =
     (let totalMsgLen = wrap32 (net_byteLength networkFrame + macFrameOverhead s)
      in if totalMsgLen > maxMacFrameSize s then (0, retFrame)
         else (1, retFrame\<lparr>mac_byteLength := macFrameOverhead s + net_byteLength networkFrame,
                           srcID := self s,
                           destID := resolvDestination s (destCtrl networkFrame),
                           frameType := MAC_PROTO_DATA_FRAME,
                           encapsulatedMsg := Some networkFrame\<rparr>))"

definition handleNetworkLayerFrame :: "cMessage \<Rightarrow> SpeckMacModule \<Rightarrow> error + SpeckMacModule" where
  "handleNetworkLayerFrame msg s =
     (if \<not> BUFFER_IS_FULL s then
        (case msg of
           NetworkFrame rcvNetDataFrame \<Rightarrow>
             (case newMessage s of (p, s1) \<Rightarrow>
                (case encapsulateNetworkFrame s1 rcvNetDataFrame (new_MAC_GenericFrame MAC_FRAME) of
                   (ok, dataFrame) \<Rightarrow>
                     if ok \<noteq> 0 then
                       (let s2 = s1\<lparr>doTx := True\<rparr>;
                            s3 = scheduleAt (simTime s2) p
                                   (MacFrame (dataFrame\<lparr>mac_kind := MAC_FRAME_SELF_PUSH_TX_BUFFER\<rparr>)) s2
                        in case dblrand s3 of (r, s4) \<Rightarrow>
                             Inr (scheduleNew (simTime s4 + DRIFTED_TIME s4 (r * randomTxOffset s4))
                                    MAC_SELF_INITIATE_TX s4))
                     else Inr (cancelAndDelete p s1)))
         | _ \<Rightarrow> Inl CastError)
      else Inr s)"

section \<open>Carrier sense\<close>

definition initiateCarrierSense :: "SpeckMacModule \<Rightarrow> SpeckMacModule" where
  "initiateCarrierSense s =
     (if macState s = MAC_STATE_DEFAULT \<or> macState s = MAC_STATE_TRY_TX then
        (if (doTx s \<and> \<not> BUFFER_IS_EMPTY s) \<or> \<not> doTx s then
           scheduleNew (simTime s) MAC_SELF_PERFORM_CARRIER_SENSE s
         else if doTx s \<and> BUFFER_IS_EMPTY s then
           (let s1 = s\<lparr>macState := MAC_STATE_DEFAULT\<rparr>
            in scheduleNew (simTime s1 + DRIFTED_TIME s1 (listenInterval s1)) MAC_SELF_SET_RADIO_SLEEP s1)
         else s)
      else s)"

definition performCarrierSense :: "SpeckMacModule \<Rightarrow> error + SpeckMacModule" where
  "performCarrierSense s =
     (if macState s = MAC_STATE_DEFAULT \<or> macState s = MAC_STATE_TRY_TX then
        (case radioCarrierSenseValid s of
           CS_VALID \<Rightarrow>
             (let s1 = sendDelayed (ControlMessage MAC_2_RADIO_SENSE_CARRIER CARRIER_SENSE_INTERVAL) 0 s
              in case newMessage s1 of (p, s2) \<Rightarrow>
                   (let s3 = s2\<lparr>selfExitCSMsg := Some p\<rparr>;
                        s4 = scheduleAt (simTime s3 + CARRIER_SENSE_INTERVAL + epsilon s3) p
                               (ControlMessage MAC_SELF_EXIT_CARRIER_SENSE 0) s3
                    in Inr (s4\<lparr>macState := MAC_STATE_CARRIER_SENSING\<rparr>)))
         | RADIO_IN_TX_MODE \<Rightarrow> Inr (scheduleNew (simTime s) MAC_SELF_CHECK_TX_BUFFER s)
         | RADIO_SLEEPING \<Rightarrow>
             ebind (setRadioState MAC_2_RADIO_ENTER_LISTEN 0 s) (\<lambda>s1.
               Inr (scheduleNew (simTime s1 + DRIFTED_TIME s1 (radioDelayForValidCS s1) + epsilon s1)
                      MAC_SELF_PERFORM_CARRIER_SENSE s1))
         | RADIO_NON_READY \<Rightarrow>
             Inr (scheduleNew (simTime s + DRIFTED_TIME s (radioDelayForValidCS s))
                    MAC_SELF_PERFORM_CARRIER_SENSE s)
         | CS_OTHER_CODE c \<Rightarrow> Inr s)
      else Inr s)"

text \<open>
  \<open>carrierBusy\<close>, compiled with \<open>BLOCKING\<close> defined (line 10 of the source): the branch
  that pops and deletes the pending frame is not part of the program. The branch taken
  when \<open>doTx\<close> is set and the branch taken when it is not consist of the same statements
  in the same order; \<open>expectRx\<close> is that block. The window is
  \<open>(double)(2 * maxMacFrameSize * 8 / (1000.0 * radioDataRate))\<close>, its numerator a
  product of \<open>int\<close>s.
\<close>

definition expectRx :: "SpeckMacModule \<Rightarrow> error + SpeckMacModule" where
  "expectRx s =
     (let s1 = cancelIfPending (dutyCycleWakeupMsg s) s;
          s2 = cancelIfPending (dutyCycleSleepMsg s1) s1;
          s3 = s2\<lparr>macState := MAC_STATE_EXPECTING_RX\<rparr>
      in case newMessage s3 of (p, s4) \<Rightarrow>
           (let s5 = s4\<lparr>dutyCycleSleepMsg := Some p\<rparr>
            in if 1000 * radioDataRate s5 = 0 then Inl NonFiniteDouble
               else Inr (scheduleAt
                           (simTime s5 + DRIFTED_TIME s5
                              (real_of_int (wrap32 (wrap32 (2 * maxMacFrameSize s5) * 8))
                                 / (1000 * radioDataRate s5)))
                           p (ControlMessage MAC_SELF_SET_RADIO_SLEEP 0) s5)))"

definition carrierBusy :: "SpeckMacModule \<Rightarrow> error + SpeckMacModule" where
  "carrierBusy s =
     (let s1 = (if pending (selfExitCSMsg s) s
                then (cancelIfPending (selfExitCSMsg s) s)\<lparr>selfExitCSMsg := None\<rparr>
                else s)
      in if macState s1 = MAC_STATE_CARRIER_SENSING \<or> macState s1 = MAC_STATE_DEFAULT then
           (if doTx s1 then expectRx s1 else expectRx s1)
         else Inr s1)"

definition carrierFree :: "SpeckMacModule \<Rightarrow> SpeckMacModule" where
  "carrierFree s =
     (let s1 =
        (if macState s = MAC_STATE_CARRIER_SENSING then
           (let a = s\<lparr>macState := MAC_STATE_DEFAULT\<rparr>
            in if doTx a then
                 (let b = (if pending (dutyCycleWakeupMsg a) a
                           then (cancelIfPending (dutyCycleWakeupMsg a) a)\<lparr>dutyCycleWakeupMsg := None\<rparr>
                           else a);
                      c = (if pending (dutyCycleSleepMsg b) b
                           then (cancelIfPending (dutyCycleSleepMsg b) b)\<lparr>dutyCycleSleepMsg := None\<rparr>
                           else b)
                  in scheduleNew (simTime c) MAC_SELF_CHECK_TX_BUFFER c)
               else
                 (let timeLeftListening = listenInterval a - (simTime a - lastWakeupTime a)
                  in if timeLeftListening > radioDelayForValidCS a + CARRIER_SENSE_INTERVAL
                     then initiateCarrierSense a else a))
         else s)
      in s1\<lparr>selfExitCSMsg := None\<rparr>)"

section \<open>The redundancy transmitter\<close>

text \<open>
  The loop \<open>for (int i = 0; i <= redundancy; i++)\<close> of \<open>sendData\<close>, from the value \<open>i\<close>
  on: a duplicate of the frame is handed to the radio after \<open>DRIFTED_TIME(i*dataTXtime)\<close>,
  and the radio is told to transmit \<open>epsilon\<close> later. The counter is an \<open>int\<close>: its
  increment at \<open>INT_MAX\<close> overflows.
\<close>

function sendCopies :: "MAC_GenericFrame option \<Rightarrow> int \<Rightarrow> SpeckMacModule \<Rightarrow> error + SpeckMacModule" where
  "sendCopies dataFrame i s =
     (if i \<le> redundancy s then
        (case dataFrame of
           None \<Rightarrow> Inl WildPointer
         | Some f \<Rightarrow>
             (case timeValue (dataTXtime s) of
                Inl e \<Rightarrow> Inl e
              | Inr t \<Rightarrow>
                  (let s1 = sendDelayed (MacFrame f) (DRIFTED_TIME s (real_of_int i * t)) s
                   in case setRadioState MAC_2_RADIO_ENTER_TX
                             (DRIFTED_TIME s1 (real_of_int i * t) + epsilon s1) s1 of
                        Inl e \<Rightarrow> Inl e
                      | Inr s2 \<Rightarrow>
                          if i = 2147483647 then Inl IntOverflow
                          else sendCopies dataFrame (i + 1) s2)))
      else Inr s)"
  by pat_completeness auto
termination
  by (relation "measure (\<lambda>(dataFrame, i, s). nat (redundancy s + 1 - i))")
     (auto simp: setRadioState_def sendDelayed_def)

declare sendCopies.simps [simp del]

definition sendData :: "SpeckMacModule \<Rightarrow> error + SpeckMacModule" where
  "sendData s =
     (if \<not> BUFFER_IS_EMPTY s then
        (if macState s = MAC_STATE_TX \<or> macState s = MAC_STATE_DEFAULT then
           ebind (popTxBuffer s) (\<lambda>(dataFrame, s1). sendCopies dataFrame 0 s1)
         else
           setRadioState MAC_2_RADIO_ENTER_SLEEP 0 (s\<lparr>macState := MAC_STATE_DEFAULT\<rparr>))
      else Inr s)"

definition finishDataTransmission :: "SpeckMacModule \<Rightarrow> error + SpeckMacModule" where
  "finishDataTransmission s =
     ebind
       (if macState s = MAC_STATE_TX then
          (let a = s\<lparr>macState := MAC_STATE_DEFAULT\<rparr>
           in if \<not> BUFFER_IS_EMPTY a then
                ebind (timeValue (dataTXtime a)) (\<lambda>t.
                  Inr (scheduleNew (simTime a + DRIFTED_TIME a (t + epsilon a)) MAC_SELF_INITIATE_TX a))
              else Inr (a\<lparr>doTx := False\<rparr>))
        else Inr s)
       (\<lambda>s1. ebind (setRadioState MAC_2_RADIO_ENTER_SLEEP 0 s1) (\<lambda>s2.
           case newMessage s2 of (p, s3) \<Rightarrow>
             (let s4 = s3\<lparr>dutyCycleWakeupMsg := Some p\<rparr>
              in Inr (scheduleAt (simTime s4 + sleepInterval s4) p
                        (ControlMessage MAC_SELF_WAKEUP_RADIO 0) s4))))"

section \<open>The duty cycle\<close>

definition dutyCycle :: "int \<Rightarrow> SpeckMacModule \<Rightarrow> error + SpeckMacModule" where
  "dutyCycle typeID s =
     (if typeID = SLEEP then
        (let s1 = (if macState s = MAC_STATE_EXPECTING_RX then s\<lparr>macState := MAC_STATE_DEFAULT\<rparr> else s)
         in ebind
              (if macState s1 = MAC_STATE_DEFAULT then
                 ebind (setRadioState MAC_2_RADIO_ENTER_SLEEP 0 s1) (\<lambda>a.
                   (let b = cancelIfPending (dutyCycleWakeupMsg a) a
                    in case newMessage b of (p, c) \<Rightarrow>
                         (let d = c\<lparr>dutyCycleWakeupMsg := Some p\<rparr>
                          in Inr (scheduleAt (simTime d + DRIFTED_TIME d (sleepInterval d)) p
                                    (ControlMessage MAC_SELF_WAKEUP_RADIO 0) d))))
               else Inr s1)
              (\<lambda>s2. Inr (s2\<lparr>dutyCycleSleepMsg := None\<rparr>)))
      else if typeID = WAKEUP then
        ebind
          (if macState s = MAC_STATE_DEFAULT then
             ebind (setRadioState MAC_2_RADIO_ENTER_LISTEN 0 s) (\<lambda>a.
               (let a1 = a\<lparr>lastWakeupTime := simTime a\<rparr>;
                    b = cancelIfPending (dutyCycleSleepMsg a1) a1
                in case newMessage b of (p, c) \<Rightarrow>
                     (let d = c\<lparr>dutyCycleSleepMsg := Some p\<rparr>;
                          e = scheduleAt (simTime d + DRIFTED_TIME d (listenInterval d)) p
                                (ControlMessage MAC_SELF_SET_RADIO_SLEEP 0) d
                      in Inr (initiateCarrierSense e))))
           else Inr s)
          (\<lambda>s2. Inr (s2\<lparr>dutyCycleWakeupMsg := None\<rparr>))
      else Inr s)"

section \<open>The MAC state machine: handleMessage\<close>

text \<open>
  The cases of the \<open>switch\<close> that have a body of their own in the source are the
  definitions \<open>handleStartup\<close>, \<open>handleInitiateTx\<close>, \<open>handleStartedTx\<close> and
  \<open>handleMacFrame\<close>.
\<close>

definition handleStartup :: "SpeckMacModule \<Rightarrow> SpeckMacModule" where
  "handleStartup s =
     (let s1 = s\<lparr>disabled := False\<rparr>
      in case newMessage s1 of (p, s2) \<Rightarrow>
           (let s3 = s2\<lparr>dutyCycleWakeupMsg := Some p\<rparr>
            in scheduleAt (simTime s3) p (ControlMessage MAC_SELF_WAKEUP_RADIO 0) s3))"

definition handleInitiateTx :: "SpeckMacModule \<Rightarrow> error + SpeckMacModule" where
  "handleInitiateTx s =
     (if macState s = MAC_STATE_DEFAULT then
        (let a = s\<lparr>macState := MAC_STATE_TRY_TX\<rparr>;
             b = (if pending (dutyCycleWakeupMsg a) a
                  then (cancelIfPending (dutyCycleWakeupMsg a) a)\<lparr>dutyCycleWakeupMsg := None\<rparr>
                  else a);
             c = (if pending (dutyCycleSleepMsg b) b
                  then (cancelIfPending (dutyCycleSleepMsg b) b)\<lparr>dutyCycleSleepMsg := None\<rparr>
                  else b)
         in case dblrand c of (r, d) \<Rightarrow>
              ebind (setRadioState MAC_2_RADIO_ENTER_LISTEN (1 / 1000 * r) d) (\<lambda>e.
                Inr (initiateCarrierSense e)))
      else Inr s)"

definition handleStartedTx :: "SpeckMacModule \<Rightarrow> SpeckMacModule" where
  "handleStartedTx s =
     (if macState s = MAC_STATE_CARRIER_SENSING then
        scheduleNew (simTime s) MAC_SELF_CHECK_TX_BUFFER (s\<lparr>macState := MAC_STATE_DEFAULT\<rparr>)
      else if macState s = MAC_STATE_DEFAULT then s\<lparr>macState := MAC_STATE_TX\<rparr>
      else s)"

text \<open>
  The case \<open>MAC_FRAME\<close>. \<open>check_and_cast\<close> raises an error when the message is not a
  MAC frame, and when \<open>decapsulate\<close> returns \<open>NULL\<close>.
\<close>

definition handleMacFrame :: "cMessage \<Rightarrow> SpeckMacModule \<Rightarrow> error + SpeckMacModule" where
  "handleMacFrame msg s =
     (case msg of
        MacFrame rcvFrame \<Rightarrow>
          (let s1 = s\<lparr>macState := MAC_STATE_DEFAULT\<rparr>;
               s2 = cancelIfPending (dutyCycleWakeupMsg s1) s1;
               s3 = cancelIfPending (dutyCycleSleepMsg s2) s2
           in case newMessage s3 of (p, s4) \<Rightarrow>
                (let s5 = s4\<lparr>dutyCycleSleepMsg := Some p\<rparr>;
                     s6 = scheduleAt (simTime s5) p (ControlMessage MAC_SELF_SET_RADIO_SLEEP 0) s5
                 in case encapsulatedMsg rcvFrame of
                      None \<Rightarrow> Inl CastError
                    | Some netDataFrame \<Rightarrow> Inr (sendToNetwork (NetworkFrame netDataFrame) s6)))
      | _ \<Rightarrow> Inl CastError)"

definition handleMessage :: "cMessage \<Rightarrow> SpeckMacModule \<Rightarrow> error + SpeckMacModule" where
  "handleMessage msg s =
     (let msgKind = kind msg
      in if disabled s \<and> msgKind \<noteq> APP_NODE_STARTUP then Inr s
         else case msgKind of
             APP_NODE_STARTUP \<Rightarrow> Inr (handleStartup s)
           | MAC_SELF_SET_RADIO_SLEEP \<Rightarrow> dutyCycle SLEEP s
           | MAC_SELF_WAKEUP_RADIO \<Rightarrow> dutyCycle WAKEUP s
           | NET_FRAME \<Rightarrow> handleNetworkLayerFrame msg s
           | MAC_FRAME_SELF_PUSH_TX_BUFFER \<Rightarrow> pushFrameIntoBuffer msg s
           | MAC_SELF_INITIATE_TX \<Rightarrow> handleInitiateTx s
           | MAC_SELF_PERFORM_CARRIER_SENSE \<Rightarrow> performCarrierSense s
           | RADIO_2_MAC_SENSED_CARRIER \<Rightarrow> carrierBusy s
           | MAC_SELF_EXIT_CARRIER_SENSE \<Rightarrow> Inr (carrierFree s)
           | MAC_SELF_CHECK_TX_BUFFER \<Rightarrow> sendData s
           | RADIO_2_MAC_STARTED_TX \<Rightarrow> Inr (handleStartedTx s)
           | RADIO_2_MAC_STOPPED_TX \<Rightarrow> finishDataTransmission s
           | MAC_FRAME \<Rightarrow> handleMacFrame msg s
           | RESOURCE_MGR_OUT_OF_ENERGY \<Rightarrow> Inr (s\<lparr>disabled := True\<rparr>)
           | _ \<Rightarrow> Inr s)"

text \<open>
  \<open>initialize\<close> assigns the members below; the parameters read from the configuration,
  from the radio module and from the resource manager are the fields of the record it
  starts from. The slots of the new array are indeterminate. The literal \<open>0.000001f\<close> is
  the single-precision number \<open>8796093 / 2^43\<close>.
\<close>

definition initialize :: "SpeckMacModule \<Rightarrow> error + SpeckMacModule" where
  "initialize s =
     ebind (setRadioState MAC_2_RADIO_ENTER_SLEEP 0 s) (\<lambda>s1.
       Inr (s1\<lparr>macState := MAC_STATE_DEFAULT,
                schedTXBuffer := replicate (nat (MAC_BUFFER_ARRAY_SIZE s1)) None,
                headTxBuffer := 0,
                tailTxBuffer := 0,
                epsilon := 8796093 / 8796093022208,
                disabled := True,
                dutyCycleSleepMsg := None,
                dutyCycleWakeupMsg := None,
                doTx := False\<rparr>))"

text \<open>
  The kernel delivers a message from another module at a time \<open>t\<close>, or the self-message
  \<open>e\<close> of the future event set at its arrival time, taking it out of the set.
\<close>

definition deliver :: "real \<Rightarrow> cMessage \<Rightarrow> SpeckMacModule \<Rightarrow> error + SpeckMacModule" where
  "deliver t msg s = handleMessage msg (s\<lparr>simTime := t\<rparr>)"

definition fire :: "ScheduledMsg \<Rightarrow> SpeckMacModule \<Rightarrow> error + SpeckMacModule" where
  "fire e s =
     handleMessage (content e)
       (s\<lparr>simTime := arrivalTime e, fes := filter (\<lambda>x. ptr x \<noteq> ptr e) (fes s)\<rparr>)"

text \<open>The self-messages of a kind that are armed.\<close>

definition armed :: "MsgKind \<Rightarrow> SpeckMacModule \<Rightarrow> ScheduledMsg list" where
  "armed k s = filter (\<lambda>e. kind (content e) = k) (fes s)"

section \<open>Definitions used to state the properties\<close>

subsection \<open>Sequences of queue operations\<close>

text \<open>
  A push is a call of \<open>pushBuffer\<close> with a frame, a pop is a call of \<open>popTxBuffer\<close>.
  \<open>run_ops\<close> runs a sequence of them and collects the frames that \<open>pushBuffer\<close> accepted
  (it returned 1) and the frames that \<open>popTxBuffer\<close> returned, both in order.
\<close>

datatype QueueOp = Push MAC_GenericFrame | Pop

fun run_ops :: "QueueOp list \<Rightarrow> MAC_GenericFrame list \<times> MAC_GenericFrame list \<times> SpeckMacModule
                  \<Rightarrow> error + (MAC_GenericFrame list \<times> MAC_GenericFrame list \<times> SpeckMacModule)" where
  "run_ops [] acc = Inr acc"
| "run_ops (Push f # ops) (pushed, popped, s) =
     (case pushBuffer (Some f) s of
        Inl e \<Rightarrow> Inl e
      | Inr (r, s1) \<Rightarrow> run_ops ops (if r = 1 then pushed @ [f] else pushed, popped, s1))"
| "run_ops (Pop # ops) (pushed, popped, s) =
     (case popTxBuffer s of
        Inl e \<Rightarrow> Inl e
      | Inr (r, s1) \<Rightarrow> run_ops ops (pushed, (case r of None \<Rightarrow> popped | Some g \<Rightarrow> popped @ [g]), s1))"

text \<open>The number of pops in a sequence.\<close>

fun count_pops :: "QueueOp list \<Rightarrow> nat" where
  "count_pops [] = 0"
| "count_pops (Push f # ops) = count_pops ops"
| "count_pops (Pop # ops) = Suc (count_pops ops)"

text \<open>The frames that the pushes of a sequence offer, in order.\<close>

fun pushes :: "QueueOp list \<Rightarrow> MAC_GenericFrame list" where
  "pushes [] = []"
| "pushes (Push f # ops) = f # pushes ops"
| "pushes (Pop # ops) = pushes ops"

definition trace_of :: "error + (MAC_GenericFrame list \<times> MAC_GenericFrame list \<times> SpeckMacModule)
                        \<Rightarrow> (MAC_GenericFrame list \<times> MAC_GenericFrame list) option" where
  "trace_of r = (case r of Inl e \<Rightarrow> None | Inr (pushed, popped, s) \<Rightarrow> Some (pushed, popped))"

text \<open>
  \<open>pops_guarded\<close>: no pop of the sequence meets an empty queue. This is the test
  \<open>!(BUFFER_IS_EMPTY)\<close> that \<open>sendData\<close> and \<open>finish\<close> make before they call \<open>popTxBuffer\<close>.
\<close>

fun pops_guarded :: "QueueOp list \<Rightarrow> SpeckMacModule \<Rightarrow> bool" where
  "pops_guarded [] s = True"
| "pops_guarded (Push f # ops) s =
     (case pushBuffer (Some f) s of Inl e \<Rightarrow> True | Inr (r, s1) \<Rightarrow> pops_guarded ops s1)"
| "pops_guarded (Pop # ops) s =
     (\<not> BUFFER_IS_EMPTY s \<and> (case popTxBuffer s of Inl e \<Rightarrow> True | Inr (r, s1) \<Rightarrow> pops_guarded ops s1))"

text \<open>The frame as \<open>pushBuffer\<close> stores it: its kind is set to \<open>MAC_FRAME\<close>.\<close>

definition stored :: "MAC_GenericFrame \<Rightarrow> MAC_GenericFrame" where
  "stored f = f\<lparr>mac_kind := MAC_FRAME\<rparr>"

text \<open>
  The values that \<open>popTxBuffer\<close> assigns to \<open>dataTXtime\<close> and to \<open>redundancy\<close> when it
  pops the frame \<open>f\<close>, and the quotient between them (the expressions of its definition).
\<close>

definition dataTXtime_of :: "SpeckMacModule \<Rightarrow> MAC_GenericFrame \<Rightarrow> double" where
  "dataTXtime_of s f =
     d_div (d_mul (d_of_int (wrap64 (mac_byteLength f + phyLayerOverhead s))) (Finite 8))
           (d_mul (Finite 1000) (fl (radioDataRate s)))"

definition quotient_of :: "SpeckMacModule \<Rightarrow> MAC_GenericFrame \<Rightarrow> double" where
  "quotient_of s f = d_div (fl (sleepInterval s)) (dataTXtime_of s f)"

definition redundancy_of :: "SpeckMacModule \<Rightarrow> MAC_GenericFrame \<Rightarrow> int" where
  "redundancy_of s f = d_to_int (d_add (quotient_of s f) (Finite (1 / 2)))"

text \<open>
  \<open>airTime s f\<close> is the air time of the frame \<open>f\<close> in exact arithmetic, and
  \<open>double_to_int\<close> the conversion to \<open>int\<close> of a real number. \<open>pop_defined s f\<close>: in exact
  arithmetic the air time and the quotient of the sleep interval by it are defined (no
  division by zero), and the quotient plus one half, truncated, fits an \<open>int\<close>.
\<close>

definition double_to_int :: "real \<Rightarrow> error + int" where
  "double_to_int x =
     (let t = (if 0 \<le> x then \<lfloor>x\<rfloor> else \<lceil>x\<rceil>)
      in if - 2147483648 \<le> t \<and> t \<le> 2147483647 then Inr t else Inl IntOutOfRange)"

definition airTime :: "SpeckMacModule \<Rightarrow> MAC_GenericFrame \<Rightarrow> real" where
  "airTime s f = real_of_int (mac_byteLength f + phyLayerOverhead s) * 8 / (1000 * radioDataRate s)"

definition pop_defined :: "SpeckMacModule \<Rightarrow> MAC_GenericFrame \<Rightarrow> bool" where
  "pop_defined s f =
     (radioDataRate s \<noteq> 0 \<and> mac_byteLength f + phyLayerOverhead s \<noteq> 0
      \<and> \<not> isl (double_to_int (sleepInterval s / airTime s f + 1 / 2)))"

text \<open>\<open>initialize\<close> cannot fail (lemma \<open>initialize_Inr\<close>); \<open>boot\<close> is the state it returns.\<close>

definition boot :: "SpeckMacModule \<Rightarrow> SpeckMacModule" where
  "boot s0 = (case initialize s0 of Inl e \<Rightarrow> s0 | Inr s \<Rightarrow> s)"

text \<open>A run of pushes through \<open>pushFrameIntoBuffer\<close>.\<close>

fun push_all :: "cMessage list \<Rightarrow> SpeckMacModule \<Rightarrow> error + SpeckMacModule" where
  "push_all [] s = Inr s"
| "push_all (m # ms) s = (case pushFrameIntoBuffer m s of Inl e \<Rightarrow> Inl e | Inr s1 \<Rightarrow> push_all ms s1)"

subsection \<open>The ring as a list\<close>

text \<open>
  The invariant of the ring: the indices are inside the array, and the slots from the head
  up to the tail have been written. \<open>queued\<close> is the list of the frames in these slots,
  the head first.
\<close>

definition qinv :: "SpeckMacModule \<Rightarrow> bool" where
  "qinv s = (0 \<le> macBufferSize s \<and> length (schedTXBuffer s) = nat (macBufferSize s + 1)
     \<and> 0 \<le> headTxBuffer s \<and> headTxBuffer s \<le> macBufferSize s
     \<and> 0 \<le> tailTxBuffer s \<and> tailTxBuffer s \<le> macBufferSize s
     \<and> (\<forall>k<nat (getTXBufferSize s). schedTXBuffer s ! nat ((headTxBuffer s + int k) mod (macBufferSize s + 1)) \<noteq> None))"

definition queued :: "SpeckMacModule \<Rightarrow> MAC_GenericFrame list" where
  "queued s = map (\<lambda>k. the (schedTXBuffer s ! nat ((headTxBuffer s + int k) mod (macBufferSize s + 1))))
                 [0..<nat (getTXBufferSize s)]"

text \<open>The state after an accepted push, and after a pop that returned a frame.\<close>

definition pushed_state :: "MAC_GenericFrame \<Rightarrow> SpeckMacModule \<Rightarrow> SpeckMacModule" where
  "pushed_state f s = s\<lparr>tailTxBuffer := (tailTxBuffer s + 1) mod (macBufferSize s + 1),
                     schedTXBuffer := (schedTXBuffer s)[nat (tailTxBuffer s) := Some (stored f)]\<rparr>"

definition advanced :: "double \<Rightarrow> int \<Rightarrow> SpeckMacModule \<Rightarrow> SpeckMacModule" where
  "advanced t r s = s\<lparr>dataTXtime := t, redundancy := r,
                      headTxBuffer := (headTxBuffer s + 1) mod (macBufferSize s + 1)\<rparr>"

definition qrel :: "MAC_GenericFrame list \<times> MAC_GenericFrame list \<times> SpeckMacModule \<Rightarrow> bool" where
  "qrel acc = (case acc of (pushed, popped, s) \<Rightarrow>
      qinv s \<and> popped @ queued s = map stored pushed)"

text \<open>The state after a pop that met the empty queue, and after \<open>n\<close> rejected pushes.\<close>

definition emptied :: "SpeckMacModule \<Rightarrow> SpeckMacModule" where
  "emptied s = s\<lparr>ev := ev s @ [CHR 0x0A # ''Trying to pop  EMPTY TxBuffer!!''],
                 tailTxBuffer := tailTxBuffer s - 1\<rparr>"

definition rejected :: "nat \<Rightarrow> SpeckMacModule \<Rightarrow> SpeckMacModule" where
  "rejected n s = s\<lparr>toNetworkModule :=
                      toNetworkModule s @ replicate n (ControlMessage MAC_2_NETWORK_FULL_BUFFER 0)\<rparr>"

subsection \<open>A concrete node\<close>

text \<open>
  A node with a transmit buffer of one frame, a radio of 2 kbit/s, a sleep interval of one
  second and a clock drift of 2. A frame of 69 bytes, with the 6 bytes of the physical
  layer, takes 0.3 s on the air: the double nearest to 0.3 is \<open>5404319552844595 / 2^54\<close>
  (\<open>tx_0_3\<close>).
\<close>

definition tx_0_3 :: real where
  "tx_0_3 = 5404319552844595 / 18014398509481984"

definition example_config :: SpeckMacModule where
  "example_config = \<lparr>sleepInterval = 1, listenInterval = 1 / 10, randomTxOffset = 1 / 100,
     maxMacFrameSize = 100, macBufferSize = 1, macFrameOverhead = 8,
     schedTXBuffer = [], dutyCycleSleepMsg = None, dutyCycleWakeupMsg = None, selfExitCSMsg = None,
     doTx = False, self = 3, macState = MAC_STATE_DEFAULT, headTxBuffer = 0, tailTxBuffer = 0,
     disabled = True, phyLayerOverhead = 6, redundancy = 0, epsilon = 0, cpuClockDrift = 2,
     radioDataRate = 2, radioDelayForValidCS = 1 / 1000, dataTXtime = Finite 0, lastWakeupTime = 0,
     simTime = 0, fes = [], nextPtr = 0, toRadioModule = [], toNetworkModule = [], ev = [],
     dblrandSeq = (\<lambda>n. 1 / 2), dblrandPos = 0, radioCarrierSenseValid = CS_VALID,
     BROADCAST_ADDR = - 1\<rparr>"

definition example_frame :: "int \<Rightarrow> MAC_GenericFrame" where
  "example_frame n = \<lparr>mac_kind = MAC_FRAME, mac_byteLength = 69, srcID = n, destID = - 1,
     frameType = MAC_PROTO_DATA_FRAME, encapsulatedMsg = None\<rparr>"

text \<open>
  The concrete node after the frames 1 and 2 went through its buffer (lemma
  \<open>example_drained_reached\<close>): the queue is empty, head and tail are 0, and the two slots
  still hold the pointers to the frames that were popped.
\<close>

definition example_drained :: SpeckMacModule where
  "example_drained = (boot example_config)\<lparr>schedTXBuffer := [Some (example_frame 1), Some (example_frame 2)],
      dataTXtime := Finite tx_0_3, redundancy := 3\<rparr>"

subsection \<open>Rounding and the burst\<close>

text \<open>
  The rounding of the specification, in its words: the nearest integer, a tie (a
  fractional part of one half) rounded up.
\<close>

definition nearest_int_ties_up :: "real \<Rightarrow> int" where
  "nearest_int_ties_up x = (if x - real_of_int \<lfloor>x\<rfloor> < 1 / 2 then \<lfloor>x\<rfloor> else \<lfloor>x\<rfloor> + 1)"

text \<open>
  What one pass of the loop of \<open>sendData\<close> hands to the radio, and the frames among
  the messages handed to the radio, each with its delay.
\<close>

definition burst :: "SpeckMacModule \<Rightarrow> real \<Rightarrow> MAC_GenericFrame \<Rightarrow> int \<Rightarrow> (real \<times> cMessage) list" where
  "burst s t f i =
     [(DRIFTED_TIME s (real_of_int i * t), MacFrame f),
      (DRIFTED_TIME s (real_of_int i * t) + epsilon s, ControlMessage MAC_2_RADIO_ENTER_TX 0)]"


text \<open>What a pop returned, and the state it left, when it did not fail.\<close>

definition returned :: "error + (MAC_GenericFrame option \<times> SpeckMacModule) \<Rightarrow> MAC_GenericFrame option option" where
  "returned r = (case r of Inl e \<Rightarrow> None | Inr (f, s) \<Rightarrow> Some f)"

definition state_after :: "error + (MAC_GenericFrame option \<times> SpeckMacModule) \<Rightarrow> SpeckMacModule option" where
  "state_after r = (case r of Inl e \<Rightarrow> None | Inr (f, s) \<Rightarrow> Some s)"

fun frames_to_radio :: "(real \<times> cMessage) list \<Rightarrow> (real \<times> MAC_GenericFrame) list" where
  "frames_to_radio [] = []"
| "frames_to_radio ((d, MacFrame f) # xs) = (d, f) # frames_to_radio xs"
| "frames_to_radio ((d, m) # xs) = frames_to_radio xs"

text \<open>The concrete node with the frame 1 in its buffer.\<close>

definition example_queued :: SpeckMacModule where
  "example_queued = (boot example_config)\<lparr>schedTXBuffer := [Some (example_frame 1), None],
      tailTxBuffer := 1\<rparr>"

text \<open>
  A node whose radio sends 1 kbit/s and whose frames have up to 128 bytes, with a frame of
  119 bytes in its buffer (125 bytes with the physical layer: one second on the air), and
  whose sleep interval is the largest double below one half, \<open>1/2 - 2^-54\<close>.
\<close>

definition example_half :: SpeckMacModule where
  "example_half = (boot example_config)\<lparr>sleepInterval := 1 / 2 - 1 / 2 ^ 54, maxMacFrameSize := 128,
      radioDataRate := 1,
      schedTXBuffer := [Some ((example_frame 1)\<lparr>mac_byteLength := 119\<rparr>), None], tailTxBuffer := 1\<rparr>"

subsection \<open>Runs of the node\<close>

text \<open>
  The host's event loop: an event is a message from another module arriving at a given
  time, or the delivery of the earliest self-message of the future event set (of several
  with the same arrival time, the one scheduled first).
\<close>

datatype Event = External real cMessage | Timer

fun earliest :: "ScheduledMsg \<Rightarrow> ScheduledMsg list \<Rightarrow> ScheduledMsg" where
  "earliest e [] = e"
| "earliest e (x # xs) = earliest (if arrivalTime x < arrivalTime e then x else e) xs"

definition nextTimer :: "ScheduledMsg list \<Rightarrow> ScheduledMsg option" where
  "nextTimer es = (case es of [] \<Rightarrow> None | e # xs \<Rightarrow> Some (earliest e xs))"

fun run_events :: "Event list \<Rightarrow> SpeckMacModule \<Rightarrow> error + SpeckMacModule" where
  "run_events [] s = Inr s"
| "run_events (External t m # es) s =
     (case deliver t m s of Inl e \<Rightarrow> Inl e | Inr s1 \<Rightarrow> run_events es s1)"
| "run_events (Timer # es) s =
     (case nextTimer (fes s) of
        None \<Rightarrow> run_events es s
      | Some e \<Rightarrow> (case fire e s of Inl err \<Rightarrow> Inl err | Inr s1 \<Rightarrow> run_events es s1))"

definition timers_after :: "MsgKind \<Rightarrow> Event list \<Rightarrow> SpeckMacModule \<Rightarrow> ScheduledMsg list option" where
  "timers_after k evs s = (case run_events evs s of Inl e \<Rightarrow> None | Inr s' \<Rightarrow> Some (armed k s'))"

text \<open>The window of \<open>carrierBusy\<close>: the air time of two frames of the maximal size.\<close>

definition two_frames_window :: "SpeckMacModule \<Rightarrow> real" where
  "two_frames_window s =
     real_of_int (wrap32 (wrap32 (2 * maxMacFrameSize s) * 8)) / (1000 * radioDataRate s)"

text \<open>
  A run of the concrete node. It starts up, wakes and begins to sense the carrier; a
  payload of 61 bytes for the broadcast address arrives and is pushed into the buffer,
  which is then full (\<open>trace_sensing\<close>, ending in the state \<open>example_sensing\<close>). The
  channel is free, the frame is popped and four copies go to the radio; the radio
  reports the start and the end of the first copy (\<open>trace_one_burst\<close>), then the start
  and the end of the second (\<open>trace_two_bursts\<close>).
\<close>

definition example_payload :: Network_GenericFrame where
  "example_payload = \<lparr>net_kind = NET_FRAME, net_byteLength = 61, destCtrl = ''-1''\<rparr>"

definition startup :: cMessage where "startup = ControlMessage APP_NODE_STARTUP 0"

definition example_sensing :: SpeckMacModule where
  "example_sensing = (boot example_config)\<lparr>
     schedTXBuffer := [Some (stored (example_frame 3)\<lparr>encapsulatedMsg := Some example_payload\<rparr>), None],
     dutyCycleSleepMsg := Some 1, selfExitCSMsg := Some 3, doTx := True,
     macState := MAC_STATE_CARRIER_SENSING, tailTxBuffer := 1, disabled := False,
     simTime := 1 / 20000,
     fes := [\<lparr>ptr = 1, arrivalTime = 1 / 5, content = ControlMessage MAC_SELF_SET_RADIO_SLEEP 0\<rparr>,
             \<lparr>ptr = 3, arrivalTime = 1 / 10000 + 8796093 / 8796093022208,
               content = ControlMessage MAC_SELF_EXIT_CARRIER_SENSE 0\<rparr>,
             \<lparr>ptr = 5, arrivalTime = 201 / 20000, content = ControlMessage MAC_SELF_INITIATE_TX 0\<rparr>],
     nextPtr := 6,
     toRadioModule := [(0, ControlMessage MAC_2_RADIO_ENTER_SLEEP 0),
           (0, ControlMessage MAC_2_RADIO_ENTER_LISTEN 0),
           (0, ControlMessage MAC_2_RADIO_SENSE_CARRIER (1 / 10000))],
     dblrandPos := 1\<rparr>"

definition trace_sensing :: "Event list" where
  "trace_sensing = [External 0 startup, Timer, Timer,
                    External (1 / 20000) (NetworkFrame example_payload), Timer]"

definition trace_one_burst :: "Event list" where
  "trace_one_burst = trace_sensing @
     [Timer, Timer, External (1 / 5000) (ControlMessage RADIO_2_MAC_STARTED_TX 0), Timer,
      External (3 / 10) (ControlMessage RADIO_2_MAC_STOPPED_TX 0)]"

definition trace_two_bursts :: "Event list" where
  "trace_two_bursts = trace_one_burst @
     [External (601 / 1000) (ControlMessage RADIO_2_MAC_STARTED_TX 0),
      External (901 / 1000) (ControlMessage RADIO_2_MAC_STOPPED_TX 0)]"

definition example_received :: MAC_GenericFrame where
  "example_received = (example_frame 9)\<lparr>encapsulatedMsg := Some example_payload\<rparr>"

section \<open>Double precision: the rounding\<close>

subsection \<open>Powers of two\<close>

lemma p2_pos [simp]: "0 < pow2 k"
  by (simp add: pow2_def)

lemma p2_nonneg [simp]: "0 \<le> pow2 k"
  by (simp add: pow2_def)

lemma p2_add: "pow2 (a + b) = pow2 a * pow2 b"
  by (simp add: pow2_def power_int_add)

lemma p2_mono: "a \<le> b \<Longrightarrow> pow2 a \<le> pow2 b"
  unfolding pow2_def by (rule power_int_increasing) simp_all

lemma p2_strict: "a < b \<Longrightarrow> pow2 a < pow2 b"
  unfolding pow2_def by (rule power_int_strict_increasing) simp_all

lemma p2_le_D: "pow2 a \<le> pow2 b \<Longrightarrow> a \<le> b"
  using p2_strict[of b a] by (cases "a \<le> b") auto

lemma p2_lt_D: "pow2 a < pow2 b \<Longrightarrow> a < b"
  using p2_mono[of b a] by (cases "a < b") auto

lemma p2_int: "0 \<le> k \<Longrightarrow> pow2 k = real_of_int (2 ^ nat k)"
  by (simp add: pow2_def power_int_def)

lemma p2_inverse: "pow2 (- k) = 1 / pow2 k"
  by (simp add: pow2_def power_int_minus_divide)

lemma p2_numeral: "pow2 (numeral n) = 2 ^ numeral n" "pow2 0 = 1" "pow2 1 = 2"
  "pow2 (- numeral n) = 1 / 2 ^ numeral n" "pow2 (- 1) = 1 / 2"
  by (simp_all add: pow2_def power_int_minus_divide)

lemma exists_bracket:
  assumes "0 < (x::real)"
  shows "\<exists>t. pow2 t \<le> x \<and> x < pow2 (t + 1)"
proof -
  let ?t = "\<lfloor>log 2 x\<rfloor>"
  have "2 powr (real_of_int ?t) \<le> x \<and> x < 2 powr (real_of_int ?t + 1)"
    using floor_log_eq_powr_iff[of x 2 ?t] assms by simp
  moreover have "2 powr (real_of_int ?t) = pow2 ?t"
    by (simp add: powr_real_of_int' pow2_def)
  moreover have "2 powr (real_of_int ?t + 1) = pow2 (?t + 1)"
    using powr_real_of_int'[of 2 "?t + 1"] by (simp add: pow2_def)
  ultimately show ?thesis by auto
qed

subsection \<open>The binary exponent\<close>

lemma ilog2_from_found:
  "pow2 t \<le> x \<Longrightarrow> x < pow2 (t + 1) \<Longrightarrow> \<bar>t - e\<bar> \<le> int n \<Longrightarrow> ilog2_from n e x = t"
proof (induction n arbitrary: e)
  case 0
  then show ?case by simp
next
  case (Suc n)
  show ?case
  proof (cases "x < pow2 e")
    case True
    with Suc.prems(1) have "pow2 t < pow2 e" by simp
    then have "t < e" by (rule p2_lt_D)
    with Suc.prems(3) have "\<bar>t - (e - 1)\<bar> \<le> int n" by simp
    from Suc.IH[OF Suc.prems(1,2) this] True show ?thesis by simp
  next
    case False
    show ?thesis
    proof (cases "pow2 (e + 1) \<le> x")
      case True
      with Suc.prems(2) have "pow2 (e + 1) < pow2 (t + 1)" by simp
      then have "e < t" using p2_lt_D by fastforce
      with Suc.prems(3) have "\<bar>t - (e + 1)\<bar> \<le> int n" by simp
      from Suc.IH[OF Suc.prems(1,2) this] True False show ?thesis by simp
    next
      case F2: False
      from False Suc.prems(2) have "pow2 e < pow2 (t + 1)" by simp
      then have a: "e \<le> t" using p2_lt_D by fastforce
      from F2 Suc.prems(1) have "pow2 t < pow2 (e + 1)" by simp
      then have b: "t \<le> e" using p2_lt_D by fastforce
      from a b False F2 show ?thesis by simp
    qed
  qed
qed

lemma ilog2_eq:
  "pow2 t \<le> x \<Longrightarrow> x < pow2 (t + 1) \<Longrightarrow> - 1100 \<le> t \<Longrightarrow> t \<le> 1100 \<Longrightarrow> ilog2 x = t"
  unfolding ilog2_def by (rule ilog2_from_found) simp_all


subsection \<open>Rounding to an integer\<close>

lemma rne_of_int [simp]: "rne (real_of_int j) = j"
  by (simp add: rne_def)

lemma rne_ge: "real_of_int j \<le> x \<Longrightarrow> j \<le> rne x"
proof -
  assume "real_of_int j \<le> x"
  then have "j \<le> \<lfloor>x\<rfloor>" by (simp add: le_floor_iff)
  then show ?thesis unfolding rne_def Let_def by auto
qed

lemma rne_le: "x \<le> real_of_int j \<Longrightarrow> rne x \<le> j"
proof -
  assume a: "x \<le> real_of_int j"
  have f: "\<lfloor>x\<rfloor> \<le> j" using floor_mono[OF a] by simp
  show ?thesis
  proof (cases "\<lfloor>x\<rfloor> = j")
    case True
    then have "x = real_of_int j" using a by linarith
    then show ?thesis by simp
  next
    case False
    with f have "\<lfloor>x\<rfloor> + 1 \<le> j" by simp
    then show ?thesis unfolding rne_def Let_def by auto
  qed
qed



subsection \<open>Rounding to a double\<close>

lemma fl_normal:
  assumes "pow2 e \<le> x" "x < pow2 (e + 1)" "- 1022 \<le> e" "e \<le> 1023"
  shows "fl x = (if 2 ^ 1024 \<le> real_of_int (rne (x / pow2 (e - 52))) * pow2 (e - 52)
                 then PlusInf
                 else Finite (real_of_int (rne (x / pow2 (e - 52))) * pow2 (e - 52)))"
proof -
  have pos: "0 < x" using assms(1) p2_pos[of e] by linarith
  have "pow2 (e + 1) \<le> pow2 1024" using assms(4) by (intro p2_mono) simp
  then have hi: "x < 2 ^ 1024" using assms(2) by (simp add: p2_numeral)
  have "pow2 (- 1022) \<le> pow2 e" using assms(3) by (intro p2_mono) simp
  then have lo: "\<not> x < pow2 (- 1022)" using assms(1) by linarith
  have il: "ilog2 x = e" using assms by (intro ilog2_eq) simp_all
  have "0 \<le> x / pow2 (e - 52)" by (rule divide_nonneg_pos) (use pos in simp_all)
  then have "0 \<le> rne (x / pow2 (e - 52))" using rne_ge[of 0] by simp
  then have y0: "0 \<le> real_of_int (rne (x / pow2 (e - 52))) * pow2 (e - 52)" by simp
  have ax: "\<bar>x\<bar> = x" using pos by simp
  show ?thesis
    unfolding fl_def ax Let_def il using hi lo pos y0 by simp
qed



lemma rne_0 [simp]: "rne 0 = 0"
  using rne_of_int[of 0] by simp

lemma fl_0 [simp]: "fl 0 = Finite 0"
  by (simp add: fl_def Let_def)

lemma fl_eval:
  assumes "pow2 e \<le> x" "x < pow2 (e + 1)" "- 1022 \<le> e" "e \<le> 1022"
    and "rne (x / pow2 (e - 52)) = m"
  shows "fl x = Finite (real_of_int m * pow2 (e - 52))"
proof -
  have kpos: "0 < pow2 (e - 52)" by simp
  have s: "pow2 (e + 1) = real_of_int (2 ^ 53) * pow2 (e - 52)"
  proof -
    have "e + 1 = 53 + (e - 52)" by simp
    then have "pow2 (e + 1) = pow2 (53 + (e - 52))" by (simp only:)
    also have "\<dots> = pow2 53 * pow2 (e - 52)" by (rule p2_add)
    finally show ?thesis by (simp add: p2_numeral)
  qed
  have "x / pow2 (e - 52) \<le> real_of_int (2 ^ 53)"
    using assms(2) kpos unfolding s by (simp add: pos_divide_le_eq)
  from rne_le[OF this] have "m \<le> 2 ^ 53" using assms(5) by simp
  then have "real_of_int m \<le> real_of_int (2 ^ 53)" by (simp only: of_int_le_iff)
  then have "real_of_int m * pow2 (e - 52) \<le> real_of_int (2 ^ 53) * pow2 (e - 52)"
    by (simp add: mult_right_mono)
  also have "\<dots> = pow2 (e + 1)" by (simp only: s)
  also have "\<dots> \<le> pow2 1023" using assms(4) by (intro p2_mono) simp
  also have "\<dots> < 2 ^ 1024" by (simp add: p2_numeral)
  finally have "\<not> 2 ^ 1024 \<le> real_of_int m * pow2 (e - 52)" by simp
  moreover have "e \<le> 1023" using assms(4) by simp
  ultimately show ?thesis
    using fl_normal[OF assms(1,2,3)] assms(5) by simp
qed

lemma fl_of_int:
  assumes "0 \<le> n" "n < 2 ^ 53"
  shows "fl (real_of_int n) = Finite (real_of_int n)"
proof (cases "n = 0")
  case True
  then show ?thesis by simp
next
  case False
  with assms(1) have pos: "0 < real_of_int n" by simp
  from exists_bracket[OF pos] obtain e where e: "pow2 e \<le> real_of_int n" "real_of_int n < pow2 (e + 1)"
    by blast
  have "1 \<le> real_of_int n" using False assms(1) by simp
  then have "pow2 0 < pow2 (e + 1)" using e(2) by (simp add: p2_numeral)
  then have "0 < e + 1" by (rule p2_lt_D)
  then have e0: "0 \<le> e" by simp
  have "real_of_int n < real_of_int (2 ^ 53)" using assms(2) by (simp only: of_int_less_iff)
  then have "pow2 e < pow2 53" using e(1) by (simp add: p2_numeral)
  then have e1: "e \<le> 52" using p2_lt_D by fastforce
  let ?P = "(2::int) ^ nat (52 - e)"
  have P: "pow2 (52 - e) = real_of_int ?P" using e1 by (intro p2_int) simp
  have inv: "pow2 (e - 52) = 1 / real_of_int ?P"
    using p2_inverse[of "52 - e"] P by simp
  have "rne (real_of_int n / pow2 (e - 52)) = n * ?P"
  proof -
    have "real_of_int n / pow2 (e - 52) = real_of_int (n * ?P)" unfolding inv by simp
    then show ?thesis by (simp only: rne_of_int)
  qed
  from fl_eval[OF e _ _ this] e0 e1 have "fl (real_of_int n) = Finite (real_of_int (n * ?P) * pow2 (e - 52))"
    by simp
  also have "real_of_int (n * ?P) * pow2 (e - 52) = real_of_int n" unfolding inv by simp
  finally show ?thesis .
qed

lemma fl_numeral: "(numeral n :: int) < 2 ^ 53 \<Longrightarrow> fl (numeral n) = Finite (numeral n)"
  using fl_of_int[of "numeral n"] by simp

lemma fl_1 [simp]: "fl 1 = Finite 1"
  using fl_of_int[of 1] by simp

text \<open>A number in the normal range is rounded with a relative error of at most \<open>2^-53\<close>.\<close>

lemma rne_near: "\<bar>real_of_int (rne x) - x\<bar> \<le> 1 / 2"
proof -
  define f where "f = \<lfloor>x\<rfloor>"
  have lo: "real_of_int f \<le> x" and hi: "x < real_of_int f + 1" unfolding f_def by linarith+
  have "rne x = (if x - real_of_int f < 1 / 2 then f else if 1 / 2 < x - real_of_int f then f + 1
                 else if even f then f else f + 1)"
    by (simp add: rne_def Let_def f_def)
  then have "rne x = f \<and> x - real_of_int f \<le> 1 / 2 \<or> rne x = f + 1 \<and> 1 / 2 \<le> x - real_of_int f"
    by (auto split: if_splits)
  then show ?thesis
  proof
    assume "rne x = f \<and> x - real_of_int f \<le> 1 / 2"
    then show ?thesis using lo by (simp add: abs_if)
  next
    assume "rne x = f + 1 \<and> 1 / 2 \<le> x - real_of_int f"
    then show ?thesis using hi by (simp add: abs_if)
  qed
qed

lemma fl_near:
  assumes "pow2 e \<le> x" "x < pow2 (e + 1)" "- 1022 \<le> e" "e \<le> 1022"
  shows "\<exists>y. fl x = Finite y \<and> \<bar>y - x\<bar> \<le> x / 2 ^ 53"
proof -
  let ?u = "pow2 (e - 52)"
  let ?m = "rne (x / ?u)"
  have upos: "0 < ?u" by simp
  have une: "?u \<noteq> 0" by (simp add: pow2_def)
  have f: "fl x = Finite (real_of_int ?m * ?u)" by (rule fl_eval[OF assms refl])
  have "\<bar>real_of_int ?m * ?u - x\<bar> = \<bar>real_of_int ?m - x / ?u\<bar> * ?u"
  proof -
    have "real_of_int ?m * ?u - x = (real_of_int ?m - x / ?u) * ?u"
      using une by (simp add: field_simps)
    then show ?thesis using upos by (simp add: abs_mult)
  qed
  also have "\<dots> \<le> 1 / 2 * ?u"
    by (rule mult_right_mono[OF rne_near]) simp
  also have "1 / 2 * ?u = pow2 e / 2 ^ 53"
  proof -
    have "pow2 e = pow2 (52 + (e - 52))" by simp
    also have "\<dots> = pow2 52 * ?u" by (rule p2_add)
    finally show ?thesis by (simp add: p2_numeral)
  qed
  also have "\<dots> \<le> x / 2 ^ 53" using assms(1) by (simp add: divide_right_mono)
  finally show ?thesis using f by blast
qed

lemma fl_near_range:
  assumes "pow2 a \<le> x" "x \<le> pow2 b" "- 1022 \<le> a" "b \<le> 1022"
  shows "\<exists>y. fl x = Finite y \<and> \<bar>y - x\<bar> \<le> x / 2 ^ 53"
proof -
  have "0 < x" using assms(1) p2_pos[of a] by linarith
  from exists_bracket[OF this] obtain e where e: "pow2 e \<le> x" "x < pow2 (e + 1)" by blast
  have "pow2 a < pow2 (e + 1)" using assms(1) e(2) by linarith
  then have "a < e + 1" by (rule p2_lt_D)
  then have lo: "- 1022 \<le> e" using assms(3) by simp
  have "pow2 e \<le> pow2 b" using assms(2) e(1) by linarith
  then have "e \<le> b" by (rule p2_le_D)
  then have hi: "e \<le> 1022" using assms(4) by simp
  from fl_near[OF e lo hi] show ?thesis .
qed


lemma rel_bounds:
  fixes x y :: real
  assumes "\<bar>y - x\<bar> \<le> x / 2 ^ 53"
  shows "x * (1 - 1 / 2 ^ 53) \<le> y" "y \<le> x * (1 + 1 / 2 ^ 53)"
proof -
  have a: "y - x \<le> x / 2 ^ 53" and b: "x - y \<le> x / 2 ^ 53" using assms by linarith+
  have c: "x * (1 - 1 / 2 ^ 53) = x - x / 2 ^ 53" "x * (1 + 1 / 2 ^ 53) = x + x / 2 ^ 53"
    by (simp_all add: algebra_simps)
  show "x * (1 - 1 / 2 ^ 53) \<le> y" unfolding c using b by linarith
  show "y \<le> x * (1 + 1 / 2 ^ 53)" unfolding c using a by linarith
qed






section \<open>Properties of the transmit queue\<close>

lemma ebind_Inr [simp]: "ebind (Inr x) f = f x"
  by (simp add: ebind_def)

lemma ebind_Inl [simp]: "ebind (Inl e) f = Inl e"
  by (simp add: ebind_def)

lemma smod_nonneg: "0 \<le> a \<Longrightarrow> 0 < b \<Longrightarrow> a smod b = a mod (b::int)"
  by (cases "a = 0") (simp_all add: smod_int_alt_def)

lemma size_mod: "qinv s \<Longrightarrow> getTXBufferSize s = (tailTxBuffer s - headTxBuffer s) mod (macBufferSize s + 1)"
  unfolding qinv_def getTXBufferSize_def MAC_BUFFER_ARRAY_SIZE_def Let_def
  apply (auto simp: )
  subgoal by (smt (verit) mod_add_self2 mod_pos_pos_trivial)
  done

lemma size_bounds: "qinv s \<Longrightarrow> 0 \<le> getTXBufferSize s \<and> getTXBufferSize s \<le> macBufferSize s"
  unfolding qinv_def getTXBufferSize_def MAC_BUFFER_ARRAY_SIZE_def Let_def by auto

lemma tail_eq: "qinv s \<Longrightarrow> (headTxBuffer s + getTXBufferSize s) mod (macBufferSize s + 1) = tailTxBuffer s"
  unfolding qinv_def getTXBufferSize_def MAC_BUFFER_ARRAY_SIZE_def Let_def
  by (auto simp: )

lemma push_full:
  assumes "qinv s" "getTXBufferSize s = macBufferSize s"
  shows "pushBuffer (Some f) s = Inr (0, s)"
proof -
  let ?M = "macBufferSize s + 1"
  from assms have b: "0 \<le> headTxBuffer s" "headTxBuffer s < ?M" "0 \<le> tailTxBuffer s" "tailTxBuffer s < ?M"
    by (auto simp: qinv_def)
  have h0: "headTxBuffer s = 0 \<Longrightarrow> tailTxBuffer s = macBufferSize s"
    using assms(2) b by (auto simp: getTXBufferSize_def MAC_BUFFER_ARRAY_SIZE_def Let_def split: if_splits)
  have h1: "headTxBuffer s \<noteq> 0 \<Longrightarrow> tailTxBuffer s = headTxBuffer s - 1"
    using assms(2) b by (auto simp: getTXBufferSize_def MAC_BUFFER_ARRAY_SIZE_def Let_def split: if_splits)
  have t: "(tailTxBuffer s + 1) mod ?M = headTxBuffer s"
  proof (cases "headTxBuffer s = 0")
    case True
    with h0 show ?thesis by simp
  next
    case False
    with h1 b show ?thesis by simp
  qed
  have sm: "(tailTxBuffer s + 1) smod ?M = headTxBuffer s"
    using b t by (simp add: smod_nonneg)
  show ?thesis
  proof (cases "headTxBuffer s = 0")
    case True
    with h0 sm show ?thesis
      by (simp add: pushBuffer_def MAC_BUFFER_ARRAY_SIZE_def Let_def)
  next
    case False
    with h1 sm show ?thesis
      by (simp add: pushBuffer_def MAC_BUFFER_ARRAY_SIZE_def Let_def)
  qed
qed

lemma push_room:
  assumes "qinv s" "getTXBufferSize s < macBufferSize s"
  shows "pushBuffer (Some f) s =
           Inr (1, s\<lparr>tailTxBuffer := (tailTxBuffer s + 1) mod (macBufferSize s + 1),
                     schedTXBuffer := (schedTXBuffer s)[nat (tailTxBuffer s) := Some (stored f)]\<rparr>)"
proof -
  let ?M = "macBufferSize s + 1"
  from assms have b: "0 \<le> headTxBuffer s" "headTxBuffer s < ?M" "0 \<le> tailTxBuffer s" "tailTxBuffer s < ?M"
    and len: "length (schedTXBuffer s) = nat ?M"
    by (auto simp: qinv_def)
  have sm: "(tailTxBuffer s + 1) smod ?M = (tailTxBuffer s + 1) mod ?M"
    using b by (simp add: smod_nonneg)
  have ne: "(tailTxBuffer s + 1) mod ?M \<noteq> headTxBuffer s"
    using assms(2) b
    by (auto simp: getTXBufferSize_def MAC_BUFFER_ARRAY_SIZE_def Let_def split: if_splits)
       (smt (verit) mod_pos_pos_trivial mod_self)+
  show ?thesis
  proof (cases "tailTxBuffer s = macBufferSize s")
    case True
    then have z: "(tailTxBuffer s + 1) mod ?M = 0" by simp
    show ?thesis using ne b len True z sm
      by (simp add: pushBuffer_def MAC_BUFFER_ARRAY_SIZE_def Let_def writeSlot_def stored_def)
  next
    case False
    then have z: "(tailTxBuffer s + 1) mod ?M = tailTxBuffer s + 1" using b by simp
    show ?thesis using ne b len False z sm
      by (simp add: pushBuffer_def MAC_BUFFER_ARRAY_SIZE_def Let_def writeSlot_def stored_def)
  qed
qed

lemma mod_shift_neq:
  fixes h k j M :: int
  assumes "0 \<le> k" "k < j" "j < M"
  shows "(h + k) mod M \<noteq> (h + j) mod M"
proof
  assume "(h + k) mod M = (h + j) mod M"
  then have "(h + j) mod M = (h + k) mod M" by simp
  then have "M dvd (h + j) - (h + k)" by (simp only: mod_eq_dvd_iff)
  then have "M dvd j - k" by simp
  moreover have "0 < j - k" "j - k < M" using assms by auto
  ultimately show False using zdvd_not_zless by blast
qed

lemma mod_range:
  fixes a N :: int
  assumes "0 \<le> N"
  shows "0 \<le> a mod (N + 1) \<and> a mod (N + 1) \<le> N"
  using assms pos_mod_bound[of "N + 1" a] pos_mod_sign[of "N + 1" a] by linarith

lemma push_room_size:
  assumes "qinv s" "getTXBufferSize s < macBufferSize s"
  shows "getTXBufferSize (pushed_state f s) = getTXBufferSize s + 1"
proof -
  let ?M = "macBufferSize s + 1"
  from assms have b: "0 \<le> headTxBuffer s" "headTxBuffer s < ?M" "0 \<le> tailTxBuffer s" "tailTxBuffer s < ?M"
    by (auto simp: qinv_def)
  show ?thesis
  proof (cases "tailTxBuffer s = macBufferSize s")
    case True
    then have z: "(tailTxBuffer s + 1) mod ?M = 0" by simp
    show ?thesis using assms(2) b True z
      by (auto simp: pushed_state_def getTXBufferSize_def MAC_BUFFER_ARRAY_SIZE_def Let_def split: if_splits)
  next
    case False
    then have z: "(tailTxBuffer s + 1) mod ?M = tailTxBuffer s + 1" using b by simp
    show ?thesis using assms(2) b False z
      by (auto simp: pushed_state_def getTXBufferSize_def MAC_BUFFER_ARRAY_SIZE_def Let_def split: if_splits)
  qed
qed

lemma slot_old:
  assumes "qinv s" "k < nat (getTXBufferSize s)"
  shows "nat ((headTxBuffer s + int k) mod (macBufferSize s + 1)) \<noteq> nat (tailTxBuffer s)"
proof -
  let ?M = "macBufferSize s + 1"
  have sb: "0 \<le> getTXBufferSize s" "getTXBufferSize s < ?M" using size_bounds[OF assms(1)] by auto
  have "(headTxBuffer s + int k) mod ?M \<noteq> (headTxBuffer s + getTXBufferSize s) mod ?M"
    using assms(2) sb by (intro mod_shift_neq) auto
  then have "(headTxBuffer s + int k) mod ?M \<noteq> tailTxBuffer s"
    using tail_eq[OF assms(1)] by simp
  moreover have "0 \<le> (headTxBuffer s + int k) mod ?M" using sb by simp
  moreover have "0 \<le> tailTxBuffer s" using assms(1) by (simp add: qinv_def)
  ultimately show ?thesis by simp
qed

lemma push_room_queued:
  assumes "qinv s" "getTXBufferSize s < macBufferSize s"
  shows "queued (pushed_state f s) = queued s @ [stored f]"
proof -
  let ?M = "macBufferSize s + 1"
  let ?n = "nat (getTXBufferSize s)"
  have sb: "0 \<le> getTXBufferSize s" using size_bounds[OF assms(1)] by auto
  have len: "length (schedTXBuffer s) = nat ?M" and tb: "0 \<le> tailTxBuffer s" "tailTxBuffer s < ?M"
    using assms(1) by (auto simp: qinv_def)
  have sz: "nat (getTXBufferSize (pushed_state f s)) = Suc ?n"
    using push_room_size[OF assms] sb by simp
  have fields: "headTxBuffer (pushed_state f s) = headTxBuffer s"
    "macBufferSize (pushed_state f s) = macBufferSize s"
    "schedTXBuffer (pushed_state f s) = (schedTXBuffer s)[nat (tailTxBuffer s) := Some (stored f)]"
    by (simp_all add: pushed_state_def)
  have old: "\<And>k. k < ?n \<Longrightarrow>
      (schedTXBuffer s)[nat (tailTxBuffer s) := Some (stored f)] ! nat ((headTxBuffer s + int k) mod ?M)
      = schedTXBuffer s ! nat ((headTxBuffer s + int k) mod ?M)"
    using slot_old[OF assms(1)] by (metis nth_list_update_neq)
  have new: "(schedTXBuffer s)[nat (tailTxBuffer s) := Some (stored f)] ! nat ((headTxBuffer s + int ?n) mod ?M)
      = Some (stored f)"
    using tail_eq[OF assms(1)] sb len tb by simp
  show ?thesis
    unfolding queued_def sz fields
    using old new by simp
qed

lemma push_room_qinv:
  assumes "qinv s" "getTXBufferSize s < macBufferSize s"
  shows "qinv (pushed_state f s)"
proof -
  let ?M = "macBufferSize s + 1"
  let ?n = "nat (getTXBufferSize s)"
  have sb: "0 \<le> getTXBufferSize s" using size_bounds[OF assms(1)] by auto
  have len: "length (schedTXBuffer s) = nat ?M" and tb: "0 \<le> tailTxBuffer s" "tailTxBuffer s < ?M"
    and N: "0 \<le> macBufferSize s"
    and hb: "0 \<le> headTxBuffer s" "headTxBuffer s \<le> macBufferSize s"
    and occ: "\<forall>k<?n. schedTXBuffer s ! nat ((headTxBuffer s + int k) mod ?M) \<noteq> None"
    using assms(1) by (auto simp: qinv_def)
  have sz: "nat (getTXBufferSize (pushed_state f s)) = Suc ?n"
    using push_room_size[OF assms] sb by simp
  have fields: "headTxBuffer (pushed_state f s) = headTxBuffer s"
    "macBufferSize (pushed_state f s) = macBufferSize s"
    "schedTXBuffer (pushed_state f s) = (schedTXBuffer s)[nat (tailTxBuffer s) := Some (stored f)]"
    "tailTxBuffer (pushed_state f s) = (tailTxBuffer s + 1) mod ?M"
    by (simp_all add: pushed_state_def)
  have old: "\<And>k. k < ?n \<Longrightarrow>
      (schedTXBuffer s)[nat (tailTxBuffer s) := Some (stored f)] ! nat ((headTxBuffer s + int k) mod ?M)
      = schedTXBuffer s ! nat ((headTxBuffer s + int k) mod ?M)"
    using slot_old[OF assms(1)] by (metis nth_list_update_neq)
  have new: "(schedTXBuffer s)[nat (tailTxBuffer s) := Some (stored f)] ! nat ((headTxBuffer s + int ?n) mod ?M)
      = Some (stored f)"
    using tail_eq[OF assms(1)] sb len tb by simp
  have occ': "\<forall>k<Suc ?n. (schedTXBuffer s)[nat (tailTxBuffer s) := Some (stored f)]
                  ! nat ((headTxBuffer s + int k) mod ?M) \<noteq> None"
    using old new occ by (auto simp: less_Suc_eq)
  have t': "0 \<le> (tailTxBuffer s + 1) mod ?M" "(tailTxBuffer s + 1) mod ?M \<le> macBufferSize s"
    using mod_range[OF N] by auto
  show ?thesis
    unfolding qinv_def sz fields
    using N len hb t' occ' by simp
qed

lemma nonempty_size: "qinv s \<Longrightarrow> headTxBuffer s \<noteq> tailTxBuffer s \<Longrightarrow> 0 < getTXBufferSize s"
  by (auto simp: qinv_def getTXBufferSize_def MAC_BUFFER_ARRAY_SIZE_def Let_def)

lemma queued_hd:
  assumes "qinv s" "headTxBuffer s \<noteq> tailTxBuffer s"
  shows "schedTXBuffer s ! nat (headTxBuffer s) = Some (hd (queued s))"
proof -
  have pos: "0 < nat (getTXBufferSize s)" using nonempty_size[OF assms] by simp
  have hb: "0 \<le> headTxBuffer s" "headTxBuffer s < macBufferSize s + 1"
    using assms(1) by (auto simp: qinv_def)
  have "schedTXBuffer s ! nat ((headTxBuffer s + int 0) mod (macBufferSize s + 1)) \<noteq> None"
    using assms(1) pos unfolding qinv_def by blast
  then have ne: "schedTXBuffer s ! nat (headTxBuffer s) \<noteq> None" using hb by simp
  have "hd (queued s) = the (schedTXBuffer s ! nat ((headTxBuffer s + int 0) mod (macBufferSize s + 1)))"
    unfolding queued_def using pos by (simp add: hd_map upt_conv_Cons)
  then have "hd (queued s) = the (schedTXBuffer s ! nat (headTxBuffer s))" using hb by simp
  with ne show ?thesis by auto
qed

lemma pop_reads_slot:
  assumes "tailTxBuffer s \<noteq> headTxBuffer s" "readSlot s (headTxBuffer s) = Inr g"
  shows "popTxBuffer s =
           Inr (Some g, s\<lparr>dataTXtime := dataTXtime_of s g, redundancy := redundancy_of s g,
                           headTxBuffer := (headTxBuffer s + 1) smod (macBufferSize s + 1)\<rparr>)"
  using assms
  by (simp add: popTxBuffer_def dataTXtime_of_def quotient_of_def redundancy_of_def
        MAC_BUFFER_ARRAY_SIZE_def Let_def)

lemma pop_some:
  assumes "qinv s" "headTxBuffer s \<noteq> tailTxBuffer s"
  shows "popTxBuffer s =
           Inr (Some (hd (queued s)),
                advanced (dataTXtime_of s (hd (queued s))) (redundancy_of s (hd (queued s))) s)"
proof -
  let ?f = "hd (queued s)"
  have hb: "0 \<le> headTxBuffer s" "headTxBuffer s < macBufferSize s + 1"
    and len: "length (schedTXBuffer s) = nat (macBufferSize s + 1)"
    using assms(1) by (auto simp: qinv_def)
  have rd: "readSlot s (headTxBuffer s) = Inr ?f"
    using queued_hd[OF assms(1,2)] hb len by (simp add: readSlot_def)
  have sm: "(headTxBuffer s + 1) smod (macBufferSize s + 1) = (headTxBuffer s + 1) mod (macBufferSize s + 1)"
    using hb by (simp add: smod_nonneg)
  have ne: "tailTxBuffer s \<noteq> headTxBuffer s" using assms(2) by simp
  show ?thesis
    unfolding pop_reads_slot[OF ne rd] sm advanced_def ..
qed

lemma advanced_size:
  assumes "qinv s" "headTxBuffer s \<noteq> tailTxBuffer s"
  shows "getTXBufferSize (advanced t r s) = getTXBufferSize s - 1"
proof -
  let ?M = "macBufferSize s + 1"
  from assms have b: "0 \<le> headTxBuffer s" "headTxBuffer s < ?M" "0 \<le> tailTxBuffer s" "tailTxBuffer s < ?M"
    by (auto simp: qinv_def)
  show ?thesis
  proof (cases "headTxBuffer s = macBufferSize s")
    case True
    then have z: "(headTxBuffer s + 1) mod ?M = 0" by simp
    show ?thesis using assms(2) b True z
      by (auto simp: advanced_def getTXBufferSize_def MAC_BUFFER_ARRAY_SIZE_def Let_def split: if_splits)
  next
    case False
    then have z: "(headTxBuffer s + 1) mod ?M = headTxBuffer s + 1" using b by simp
    show ?thesis using assms(2) b False z
      by (auto simp: advanced_def getTXBufferSize_def MAC_BUFFER_ARRAY_SIZE_def Let_def split: if_splits)
  qed
qed

lemma advanced_index:
  "0 \<le> macBufferSize s \<Longrightarrow>
   (headTxBuffer (advanced t r s) + int k) mod (macBufferSize (advanced t r s) + 1)
   = (headTxBuffer s + int (Suc k)) mod (macBufferSize s + 1)"
  by (simp add: advanced_def mod_simps ac_simps)

lemma advanced_queued:
  assumes "qinv s" "headTxBuffer s \<noteq> tailTxBuffer s"
  shows "queued (advanced t r s) = tl (queued s)"
proof -
  have N: "0 \<le> macBufferSize s" using assms(1) by (simp add: qinv_def)
  have sz: "nat (getTXBufferSize (advanced t r s)) = nat (getTXBufferSize s) - 1"
    using advanced_size[OF assms] by simp
  have buf: "schedTXBuffer (advanced t r s) = schedTXBuffer s" by (simp add: advanced_def)
  have A: "queued (advanced t r s)
        = map (\<lambda>k. the (schedTXBuffer s ! nat ((headTxBuffer s + int k) mod (macBufferSize s + 1))))
              (map Suc [0..<nat (getTXBufferSize s) - 1])"
    unfolding queued_def sz buf advanced_index[OF N] by (simp only: map_map comp_def)
  have B: "map Suc [0..<nat (getTXBufferSize s) - 1] = tl [0..<nat (getTXBufferSize s)]"
    using nonempty_size[OF assms] by (simp add: map_Suc_upt tl_upt)
  show ?thesis unfolding A B by (simp only: queued_def map_tl)
qed

lemma advanced_qinv:
  assumes "qinv s" "headTxBuffer s \<noteq> tailTxBuffer s"
  shows "qinv (advanced t r s)"
proof -
  let ?M = "macBufferSize s + 1"
  have N: "0 \<le> macBufferSize s"
    and len: "length (schedTXBuffer s) = nat ?M"
    and tb: "0 \<le> tailTxBuffer s" "tailTxBuffer s \<le> macBufferSize s"
    and occ: "\<forall>k<nat (getTXBufferSize s). schedTXBuffer s ! nat ((headTxBuffer s + int k) mod ?M) \<noteq> None"
    using assms(1) by (auto simp: qinv_def)
  have sz: "nat (getTXBufferSize (advanced t r s)) = nat (getTXBufferSize s) - 1"
    using advanced_size[OF assms] by simp
  have fields: "macBufferSize (advanced t r s) = macBufferSize s"
    "schedTXBuffer (advanced t r s) = schedTXBuffer s"
    "tailTxBuffer (advanced t r s) = tailTxBuffer s"
    "headTxBuffer (advanced t r s) = (headTxBuffer s + 1) mod ?M"
    by (simp_all add: advanced_def)
  have occ': "\<forall>k<nat (getTXBufferSize s) - 1.
      schedTXBuffer s ! nat ((headTxBuffer (advanced t r s) + int k) mod (macBufferSize (advanced t r s) + 1)) \<noteq> None"
  proof (intro allI impI)
    fix k assume "k < nat (getTXBufferSize s) - 1"
    then have "Suc k < nat (getTXBufferSize s)" by simp
    with occ have "schedTXBuffer s ! nat ((headTxBuffer s + int (Suc k)) mod ?M) \<noteq> None" by blast
    then show "schedTXBuffer s ! nat ((headTxBuffer (advanced t r s) + int k)
                 mod (macBufferSize (advanced t r s) + 1)) \<noteq> None"
      by (simp add: advanced_index[OF N] del: of_nat_Suc)
  qed
  show ?thesis
    unfolding qinv_def sz
    using N len tb mod_range[OF N, of "headTxBuffer s + 1"] occ'
    by (simp add: fields)
qed

lemma queued_nonempty: "qinv s \<Longrightarrow> headTxBuffer s \<noteq> tailTxBuffer s \<Longrightarrow> queued s \<noteq> []"
  using nonempty_size[of s] by (simp add: queued_def)

lemma run_ops_qrel:
  assumes "qrel (pushed, popped, s)" "pops_guarded ops s"
  shows "\<exists>pushed' popped' s'. run_ops ops (pushed, popped, s) = Inr (pushed', popped', s')
           \<and> qrel (pushed', popped', s')
           \<and> length popped' = length popped + count_pops ops"
  using assms
proof (induction ops arbitrary: pushed popped s)
  case Nil
  then show ?case by simp
next
  case (Cons x ops)
  from Cons.prems(1) have inv: "qinv s" and fifo: "popped @ queued s = map stored pushed"
    by (auto simp: qrel_def)
  show ?case
  proof (cases x)
    case (Push f)
    show ?thesis
    proof (cases "getTXBufferSize s < macBufferSize s")
      case True
      have pb: "pushBuffer (Some f) s = Inr (1, pushed_state f s)"
        using push_room[OF inv True] by (simp add: pushed_state_def)
      have q: "qrel (pushed @ [f], popped, pushed_state f s)"
        using push_room_qinv[OF inv True] push_room_queued[OF inv True] fifo
        by (auto simp: qrel_def)
      have g: "pops_guarded ops (pushed_state f s)"
        using Cons.prems(2) Push pb by simp
      from Cons.IH[OF q g] show ?thesis using Push pb by simp
    next
      case False
      then have full: "getTXBufferSize s = macBufferSize s" using size_bounds[OF inv] by simp
      have pb: "pushBuffer (Some f) s = Inr (0, s)" by (rule push_full[OF inv full])
      have g: "pops_guarded ops s" using Cons.prems(2) Push pb by simp
      from Cons.IH[OF Cons.prems(1) g] show ?thesis using Push pb by simp
    qed
  next
    case Pop
    have ne: "headTxBuffer s \<noteq> tailTxBuffer s"
      using Cons.prems(2) Pop by (simp add: BUFFER_IS_EMPTY_def)
    have qne: "queued s \<noteq> []" by (rule queued_nonempty[OF inv ne])
    note pp = pop_some[OF inv ne]
    let ?s1 = "advanced (dataTXtime_of s (hd (queued s))) (redundancy_of s (hd (queued s))) s"
    have "(popped @ [hd (queued s)]) @ tl (queued s) = map stored pushed"
      using fifo qne by simp
    then have q: "qrel (pushed, popped @ [hd (queued s)], ?s1)"
      using advanced_qinv[OF inv ne] advanced_queued[OF inv ne]
      by (auto simp: qrel_def)
    have g: "pops_guarded ops ?s1" using Cons.prems(2) Pop pp by simp
    from Cons.IH[OF q g] show ?thesis using Pop pp by simp
  qed
qed

lemma initialize_Inr:
  "initialize s0 = Inr ((sendDelayed (ControlMessage MAC_2_RADIO_ENTER_SLEEP 0) 0 s0)
       \<lparr>macState := MAC_STATE_DEFAULT,
         schedTXBuffer := replicate (nat (macBufferSize s0 + 1)) None,
         headTxBuffer := 0, tailTxBuffer := 0, epsilon := 8796093 / 8796093022208,
         disabled := True, dutyCycleSleepMsg := None, dutyCycleWakeupMsg := None, doTx := False\<rparr>)"
  by (simp add: initialize_def setRadioState_def sendDelayed_def MAC_BUFFER_ARRAY_SIZE_def)

lemma boot_fields:
  "headTxBuffer (boot s0) = 0" "tailTxBuffer (boot s0) = 0"
  "macBufferSize (boot s0) = macBufferSize s0"
  "schedTXBuffer (boot s0) = replicate (nat (macBufferSize s0 + 1)) None"
  "radioDataRate (boot s0) = radioDataRate s0" "phyLayerOverhead (boot s0) = phyLayerOverhead s0"
  "sleepInterval (boot s0) = sleepInterval s0"
  by (simp_all add: boot_def initialize_Inr sendDelayed_def)

lemma boot_qrel: "0 \<le> macBufferSize s0 \<Longrightarrow> qrel ([], [], boot s0)"
  by (simp add: qrel_def qinv_def queued_def getTXBufferSize_def boot_fields)

lemma set_pushes: "set (pushes ops) = {f. Push f \<in> set ops}"
proof (induction ops)
  case Nil
  then show ?case by simp
next
  case (Cons x ops)
  then show ?case by (cases x) auto
qed

lemma run_ops_pushed_subset:
  "run_ops ops (pushed, popped, s) = Inr (pushed', popped', s')
   \<Longrightarrow> set pushed' \<subseteq> set pushed \<union> {f. Push f \<in> set ops}"
proof (induction ops arbitrary: pushed popped s)
  case Nil
  then show ?case by simp
next
  case (Cons x ops)
  show ?case
  proof (cases x)
    case (Push f)
    show ?thesis
    proof (cases "pushBuffer (Some f) s")
      case (Inl e)
      with Cons.prems Push show ?thesis by simp
    next
      case (Inr p)
      obtain r s1 where p: "p = (r, s1)" by (cases p)
      with Cons.prems Push Inr have
        "run_ops ops (if r = 1 then pushed @ [f] else pushed, popped, s1) = Inr (pushed', popped', s')"
        by simp
      from Cons.IH[OF this] show ?thesis using Push by (auto split: if_splits)
    qed
  next
    case Pop
    show ?thesis
    proof (cases "popTxBuffer s")
      case (Inl e)
      with Cons.prems Pop show ?thesis by simp
    next
      case (Inr p)
      obtain r s1 where p: "p = (r, s1)" by (cases p)
      with Cons.prems Pop Inr have
        "run_ops ops (pushed, (case r of None \<Rightarrow> popped | Some g \<Rightarrow> popped @ [g]), s1)
           = Inr (pushed', popped', s')"
        by simp
      from Cons.IH[OF this] show ?thesis using Pop by auto
    qed
  qed
qed

lemma pushBuffer_capacity:
  "pushBuffer x s = Inr (r, s1) \<Longrightarrow> macBufferSize s1 = macBufferSize s"
  by (auto simp: pushBuffer_def writeSlot_def Let_def ebind_def split: option.splits if_splits)

lemma popTxBuffer_capacity:
  "popTxBuffer s = Inr (r, s1) \<Longrightarrow> macBufferSize s1 = macBufferSize s"
  by (auto simp: popTxBuffer_def ebind_def Let_def split: if_splits sum.splits)

lemma run_ops_capacity:
  "run_ops ops (pushed, popped, s) = Inr (pushed', popped', s')
   \<Longrightarrow> macBufferSize s' = macBufferSize s"
proof (induction ops arbitrary: pushed popped s)
  case Nil
  then show ?case by simp
next
  case (Cons x ops)
  show ?case
  proof (cases x)
    case (Push f)
    show ?thesis
    proof (cases "pushBuffer (Some f) s")
      case (Inl e)
      with Cons.prems Push show ?thesis by simp
    next
      case (Inr p)
      obtain r s1 where p: "p = (r, s1)" by (cases p)
      with Cons.prems Push Inr have
        "run_ops ops (if r = 1 then pushed @ [f] else pushed, popped, s1) = Inr (pushed', popped', s')"
        by simp
      from Cons.IH[OF this] pushBuffer_capacity[of "Some f" s r s1] Inr p show ?thesis by simp
    qed
  next
    case Pop
    show ?thesis
    proof (cases "popTxBuffer s")
      case (Inl e)
      with Cons.prems Pop show ?thesis by simp
    next
      case (Inr p)
      obtain r s1 where p: "p = (r, s1)" by (cases p)
      with Cons.prems Pop Inr have
        "run_ops ops (pushed, (case r of None \<Rightarrow> popped | Some g \<Rightarrow> popped @ [g]), s1)
           = Inr (pushed', popped', s')"
        by simp
      from Cons.IH[OF this] popTxBuffer_capacity[of s r s1] Inr p show ?thesis by simp
    qed
  qed
qed

lemma wrap64_id: "- 9223372036854775808 \<le> i \<Longrightarrow> i < 9223372036854775808 \<Longrightarrow> wrap64 i = i"
  by (simp add: wrap64_def)

subsection \<open>The doubles of the concrete node\<close>

text \<open>
  The air time of the 75 bytes at 2 kbit/s is the double nearest to 0.3; the quotient of
  the sleep interval of one second by it is the double \<open>7505999378950827 / 2^51\<close>, a
  little above 10/3, and one half more is a double as well.
\<close>

lemma fl_3_10: "fl (3 / 10) = Finite (5404319552844595 / 18014398509481984)"
proof -
  have "rne (3 / 10 / pow2 (- 2 - 52)) = 5404319552844595"
    by (simp add: rne_def p2_numeral)
  from fl_eval[of "- 2" "3 / 10", OF _ _ _ _ this] show ?thesis by (simp add: p2_numeral)
qed

lemma fl_quotient_example:
  "fl (18014398509481984 / 5404319552844595) = Finite (7505999378950827 / 2251799813685248)"
proof -
  have "rne (18014398509481984 / 5404319552844595 / pow2 (1 - 52)) = 7505999378950827"
    by (simp add: rne_def p2_numeral)
  from fl_eval[of 1 "18014398509481984 / 5404319552844595", OF _ _ _ _ this]
  show ?thesis by (simp add: p2_numeral)
qed

lemma fl_sum_example:
  "fl (8631899285793451 / 2251799813685248) = Finite (8631899285793451 / 2251799813685248)"
proof -
  have "rne (8631899285793451 / 2251799813685248 / pow2 (1 - 52)) = 8631899285793451"
    by (simp add: rne_def p2_numeral)
  from fl_eval[of 1 "8631899285793451 / 2251799813685248", OF _ _ _ _ this]
  show ?thesis by (simp add: p2_numeral)
qed

lemmas example_defs = boot_def initialize_Inr sendDelayed_def example_config_def example_frame_def
       pushBuffer_def popTxBuffer_def MAC_BUFFER_ARRAY_SIZE_def writeSlot_def readSlot_def
       BUFFER_IS_EMPTY_def smod_int_alt_def Let_def numeral_2_eq_2
       d_of_int_def d_to_int_def fl_numeral fl_3_10 fl_quotient_example fl_sum_example tx_0_3_def
       wrap64_def

lemma example_queued_reached:
  "pushBuffer (Some (example_frame 1)) (boot example_config) = Inr (1, example_queued)"
  by (simp add: example_queued_def example_defs)

lemma example_half_reached:
  "pushBuffer (Some ((example_frame 1)\<lparr>mac_byteLength := 119\<rparr>))
     (boot (example_config\<lparr>sleepInterval := 1 / 2 - 1 / 2 ^ 54, maxMacFrameSize := 128,
                            radioDataRate := 1\<rparr>))
   = Inr (1, example_half)"
  by (simp add: example_half_def example_defs)

lemma example_drained_reached:
  "run_ops [Push (example_frame 1), Pop, Push (example_frame 2), Pop] ([], [], boot example_config)
   = Inr ([example_frame 1, example_frame 2], [example_frame 1, example_frame 2], example_drained)"
  by (simp add: example_drained_def example_defs)

text \<open>
  Claim C4 says that for every sequence of push and pop operations from the initial empty
  state the frames are popped in the order in which they were pushed, and that a pop
  returns a frame that was pushed. The run below, on the node with a buffer of one frame:
  push 1, pop, push 2, pop, pop, pop. The queue is empty after the fourth operation; the
  fifth, a pop, returns \<open>NULL\<close> and moves the tail below the head (the statement
  \<open>tailTxBuffer--\<close> of \<open>popTxBuffer\<close>); the sixth returns the frame 1 a second time.
  The frames popped are 1, 2, 1, and the frames pushed are 1, 2.
\<close>

theorem queue_fifo_counterexample:
  "trace_of (run_ops [Push (example_frame 1), Pop, Push (example_frame 2), Pop, Pop, Pop]
               ([], [], boot example_config))
     = Some ([example_frame 1, example_frame 2], [example_frame 1, example_frame 2, example_frame 1])
   \<and> [example_frame 1, example_frame 2, example_frame 1]
       \<noteq> take 3 (map stored [example_frame 1, example_frame 2])"
  by (simp add: trace_of_def stored_def example_defs)

text \<open>
  The ring is a queue as long as no pop meets the empty queue, which is the test that
  \<open>sendData\<close> makes before it pops: the run goes through, every pop returns a frame, the
  value of \<open>getTXBufferSize\<close> lies between 0 and the capacity \<open>macBufferSize\<close>, every
  accepted frame is one of the frames that were pushed, and the frames popped are the
  first of the frames accepted, in the order of the pushes (as \<open>pushBuffer\<close> stored
  them, the kind set to \<open>MAC_FRAME\<close>).
\<close>

lemma guarded_pops_are_fifo:
  assumes "0 \<le> macBufferSize s0"
    and "pops_guarded ops (boot s0)"
  shows "\<exists>pushed popped s'. run_ops ops ([], [], boot s0) = Inr (pushed, popped, s')
           \<and> 0 \<le> getTXBufferSize s' \<and> getTXBufferSize s' \<le> macBufferSize s0
           \<and> set pushed \<subseteq> set (pushes ops)
           \<and> length popped = count_pops ops
           \<and> popped = take (count_pops ops) (map stored pushed)"
proof -
  from run_ops_qrel[OF boot_qrel[OF assms(1)] assms(2)]
  obtain pushed popped s' where r: "run_ops ops ([], [], boot s0) = Inr (pushed, popped, s')"
    and q: "qrel (pushed, popped, s')" and n: "length popped = count_pops ops"
    by auto
  from q have inv: "qinv s'" and fifo: "popped @ queued s' = map stored pushed"
    by (auto simp: qrel_def)
  from fifo have t: "take (length popped) (map stored pushed) = popped"
    by (metis append_eq_conv_conj)
  have sub: "set pushed \<subseteq> set (pushes ops)"
    using run_ops_pushed_subset[OF r] by (simp add: set_pushes)
  have N: "macBufferSize s' = macBufferSize s0"
    using run_ops_capacity[OF r] by (simp add: boot_fields)
  with r size_bounds[OF inv] t sub n show ?thesis by auto
qed

lemma guarded_pops_example:
  "pops_guarded [Push (example_frame 1), Push (example_frame 2), Pop, Push (example_frame 3), Pop] (boot example_config)
  \<and> trace_of (run_ops [Push (example_frame 1), Push (example_frame 2), Pop, Push (example_frame 3), Pop] ([], [], boot example_config))
     = Some ([example_frame 1, example_frame 3], [example_frame 1, example_frame 3])"
  by (simp add: trace_of_def example_defs)

section \<open>A pop that meets the empty queue\<close>

text \<open>
  Claim C5 says that a pop on an empty queue is an error condition that returns no frame,
  that never lets a stale frame be returned, and that is surfaced as a defect rather than
  masked. The run below: the frames 1 and 2 went through the buffer of the concrete node
  and the queue is empty. \<open>popTxBuffer\<close> returns \<open>NULL\<close> as any other result (no
  exception, no assertion): its only traces are a line on the stream \<open>ev\<close> and the tail
  index, which it decrements. After it the queue does not pass for empty any more, and
  the next pop returns the frame 1, which was transmitted before.
\<close>

theorem empty_pop_is_masked_and_stale_frame_follows:
  "run_ops [Push (example_frame 1), Pop, Push (example_frame 2), Pop] ([], [], boot example_config)
     = Inr ([example_frame 1, example_frame 2], [example_frame 1, example_frame 2], example_drained)
   \<and> BUFFER_IS_EMPTY example_drained
   \<and> popTxBuffer example_drained = Inr (None, emptied example_drained)
   \<and> ev (emptied example_drained) = [CHR 0x0A # ''Trying to pop  EMPTY TxBuffer!!'']
   \<and> tailTxBuffer (emptied example_drained) = - 1
   \<and> \<not> BUFFER_IS_EMPTY (emptied example_drained)
   \<and> returned (popTxBuffer (emptied example_drained)) = Some (Some (example_frame 1))"
  using example_drained_reached
  by (simp add: returned_def emptied_def example_drained_def example_defs)

lemma push_all_rejected:
  "BUFFER_IS_FULL s \<Longrightarrow> push_all msgs s = Inr (rejected (length msgs) s)"
proof (induction msgs arbitrary: s)
  case Nil
  then show ?case by (simp add: rejected_def)
next
  case (Cons m msgs)
  have one: "pushFrameIntoBuffer m s = Inr (rejected 1 s)"
    using Cons.prems by (simp add: pushFrameIntoBuffer_def rejected_def sendToNetwork_def)
  have "getTXBufferSize (rejected 1 s) = getTXBufferSize s"
    by (simp add: getTXBufferSize_def rejected_def MAC_BUFFER_ARRAY_SIZE_def Let_def)
  then have full: "BUFFER_IS_FULL (rejected 1 s)"
    using Cons.prems by (simp add: BUFFER_IS_FULL_def rejected_def)
  have "rejected (length msgs) (rejected 1 s) = rejected (Suc (length msgs)) s"
    by (simp add: rejected_def replicate_app_Cons_same)
  with Cons.IH[OF full] one show ?case by simp
qed

text \<open>
  Claim C9: \<open>popTxBuffer\<close> on an empty queue (\<open>headTxBuffer == tailTxBuffer\<close>, no slot
  occupied) returns \<open>NULL\<close> and decrements \<open>tailTxBuffer\<close> by one. After it
  \<open>getTXBufferSize\<close> reports \<open>macBufferSize\<close>, \<open>BUFFER_IS_FULL\<close> holds, and every
  following push through \<open>pushFrameIntoBuffer\<close> is rejected with the buffer-full
  message, the slots unchanged. The next pop does not see an empty queue: it reads the
  slot at the head, which no queued frame occupies. When that slot holds the pointer to
  a frame popped earlier, the pop returns this frame; when it was never written, the pop
  follows an indeterminate pointer.
\<close>

theorem pop_on_empty_queue_corrupts_tail:
  assumes "headTxBuffer s = tailTxBuffer s"
    and "0 \<le> headTxBuffer s" and "headTxBuffer s < int (length (schedTXBuffer s))"
  shows "getTXBufferSize s = 0
       \<and> popTxBuffer s = Inr (None, emptied s)
       \<and> tailTxBuffer (emptied s) = tailTxBuffer s - 1
       \<and> getTXBufferSize (emptied s) = macBufferSize s
       \<and> BUFFER_IS_FULL (emptied s)
       \<and> push_all msgs (emptied s) = Inr (rejected (length msgs) (emptied s))
       \<and> schedTXBuffer (rejected (length msgs) (emptied s)) = schedTXBuffer s
       \<and> (case schedTXBuffer s ! nat (headTxBuffer s) of
            None \<Rightarrow> popTxBuffer (rejected (length msgs) (emptied s)) = Inl WildPointer
          | Some g \<Rightarrow> pop_defined s g \<longrightarrow>
              (\<exists>s3. popTxBuffer (rejected (length msgs) (emptied s)) = Inr (Some g, s3)))"
proof -
  let ?s2 = "rejected (length msgs) (emptied s)"
  have a: "getTXBufferSize s = 0" using assms(1) by (simp add: getTXBufferSize_def)
  have b: "popTxBuffer s = Inr (None, emptied s)"
    using assms(1) by (simp add: popTxBuffer_def emptied_def)
  have c: "tailTxBuffer (emptied s) = tailTxBuffer s - 1" by (simp add: emptied_def)
  have d: "getTXBufferSize (emptied s) = macBufferSize s"
    using assms(1) by (simp add: getTXBufferSize_def emptied_def MAC_BUFFER_ARRAY_SIZE_def)
  have e: "BUFFER_IS_FULL (emptied s)"
    using d by (simp add: BUFFER_IS_FULL_def emptied_def)
  have f: "push_all msgs (emptied s) = Inr ?s2" by (rule push_all_rejected[OF e])
  have g: "schedTXBuffer ?s2 = schedTXBuffer s" by (simp add: rejected_def emptied_def)
  have ne: "tailTxBuffer ?s2 \<noteq> headTxBuffer ?s2"
    using assms(1) by (simp add: rejected_def emptied_def)
  have hd: "headTxBuffer ?s2 = headTxBuffer s" by (simp add: rejected_def emptied_def)
  have h: "(case schedTXBuffer s ! nat (headTxBuffer s) of
            None \<Rightarrow> popTxBuffer ?s2 = Inl WildPointer
          | Some g \<Rightarrow> pop_defined s g \<longrightarrow> (\<exists>s3. popTxBuffer ?s2 = Inr (Some g, s3)))"
  proof (cases "schedTXBuffer s ! nat (headTxBuffer s)")
    case None
    then have "readSlot ?s2 (headTxBuffer ?s2) = Inl WildPointer"
      using assms(2,3) by (simp add: readSlot_def rejected_def emptied_def)
    then show ?thesis using None ne by (simp add: popTxBuffer_def)
  next
    case (Some g)
    then have rd: "readSlot ?s2 (headTxBuffer ?s2) = Inr g"
      using assms(2,3) by (simp add: readSlot_def rejected_def emptied_def)
    have "\<exists>s3. popTxBuffer ?s2 = Inr (Some g, s3)"
      using pop_reads_slot[OF ne rd] by blast
    with Some show ?thesis by simp
  qed
  from a b c d e f g h show ?thesis by blast
qed

text \<open>
  Witness of C9: the drained node, whose slot at the head holds the frame 1 popped before.
  After the pop on the empty queue the size reported is the capacity 1, two pushes are
  rejected, and the next pop returns the frame 1 again.
\<close>

theorem pop_on_empty_queue_corrupts_tail_witness:
  "headTxBuffer example_drained = tailTxBuffer example_drained
   \<and> 0 \<le> headTxBuffer example_drained
   \<and> headTxBuffer example_drained < int (length (schedTXBuffer example_drained))
   \<and> pop_defined example_drained (example_frame 1)
   \<and> getTXBufferSize (emptied example_drained) = 1
   \<and> (\<exists>s3. popTxBuffer (rejected 2 (emptied example_drained)) = Inr (Some (example_frame 1), s3))"
proof -
  have h: "headTxBuffer example_drained = tailTxBuffer example_drained"
    and b: "0 \<le> headTxBuffer example_drained"
      "headTxBuffer example_drained < int (length (schedTXBuffer example_drained))"
    by (simp_all add: example_drained_def example_defs)
  have sl: "schedTXBuffer example_drained ! nat (headTxBuffer example_drained) = Some (example_frame 1)"
    by (simp add: example_drained_def example_defs)
  have pd: "pop_defined example_drained (example_frame 1)"
    by (simp add: pop_defined_def airTime_def double_to_int_def example_drained_def example_defs)
  have N: "macBufferSize example_drained = 1"
    by (simp add: example_drained_def example_defs)
  from pop_on_empty_queue_corrupts_tail[OF h b, of "[MacFrame (example_frame 3), MacFrame (example_frame 4)]"]
  show ?thesis using h b sl pd N by (simp add: numeral_2_eq_2)
qed

section \<open>The pop and the burst of redundant copies\<close>

text \<open>
  A tie goes up, in the specification's rounding and in the conversion of the code. For a
  negative quotient the two differ, the conversion truncating towards zero: the claims
  about the redundancy are for a quotient that is not negative.
\<close>

lemma rounding_of_a_tie:
  "nearest_int_ties_up (5 / 2) = 3 \<and> d_to_int (d_add (Finite (5 / 2)) (Finite (1 / 2))) = 3"
  by (simp add: nearest_int_ties_up_def d_to_int_def fl_numeral)

lemma rounding_of_a_negative_quotient:
  "nearest_int_ties_up (- 3 / 4) = - 1 \<and> d_to_int (d_add (Finite (- 3 / 4)) (Finite (1 / 2))) = 0"
proof -
  have l: "ilog2 (1 / 4) = - 2" by (rule ilog2_eq) (simp_all add: p2_numeral)
  have r: "rne (- (4503599627370496 :: real)) = - 4503599627370496"
    using rne_of_int[of "- 4503599627370496"] by simp
  have f: "fl (- (1 / 4)) = Finite (- (1 / 4))"
    by (simp add: fl_def Let_def l r p2_numeral)
  have c: "\<lceil>- (1 / 4 :: real)\<rceil> = 0" by (simp add: ceiling_eq_iff)
  have n: "\<lfloor>- (3 / 4 :: real)\<rfloor> = - 1" by (simp add: floor_eq_iff)
  show ?thesis by (simp add: nearest_int_ties_up_def d_to_int_def f c n)
qed

text \<open>
  A radio of 250 kbit/s, a frame of 20 bytes with the physical layer, a sleep interval of
  one second. The air time is the double nearest to 0.00064, which is below it, and the
  quotient is the double \<open>1562.4999999999998\<close>: the redundancy is 1562. (In exact
  arithmetic the quotient is the tie 1562.5, which rounds to 1563.)
\<close>

lemma redundancy_at_250_kbit:
  "dataTXtime_of (example_config\<lparr>radioDataRate := 250\<rparr>) ((example_frame 1)\<lparr>mac_byteLength := 14\<rparr>)
     = Finite (5902958103587057 / 9223372036854775808)
   \<and> quotient_of (example_config\<lparr>radioDataRate := 250\<rparr>) ((example_frame 1)\<lparr>mac_byteLength := 14\<rparr>)
     = Finite (6871947673599999 / 4398046511104)
   \<and> redundancy_of (example_config\<lparr>radioDataRate := 250\<rparr>) ((example_frame 1)\<lparr>mac_byteLength := 14\<rparr>)
     = 1562
   \<and> nearest_int_ties_up (6871947673599999 / 4398046511104) = 1562
   \<and> nearest_int_ties_up (1 / (real_of_int (14 + 6) * 8 / (1000 * 250))) = 1563"
proof -
  have a: "fl (1 / 1562.5) = Finite (5902958103587057 / 9223372036854775808)"
  proof -
    have "rne (1 / 1562.5 / pow2 (- 11 - 52)) = 5902958103587057"
      by (simp add: rne_def p2_numeral)
    from fl_eval[of "- 11" "1 / 1562.5", OF _ _ _ _ this] show ?thesis by (simp add: p2_numeral)
  qed
  have b: "fl (9223372036854775808 / 5902958103587057) = Finite (6871947673599999 / 4398046511104)"
  proof -
    have "rne (9223372036854775808 / 5902958103587057 / pow2 (10 - 52)) = 6871947673599999"
      by (simp add: rne_def p2_numeral)
    from fl_eval[of 10 "9223372036854775808 / 5902958103587057", OF _ _ _ _ this]
    show ?thesis by (simp add: p2_numeral)
  qed
  have c: "fl (6874146696855551 / 4398046511104) = Finite (6874146696855551 / 4398046511104)"
  proof -
    have "rne (6874146696855551 / 4398046511104 / pow2 (10 - 52)) = 6874146696855551"
      by (simp add: rne_def p2_numeral)
    from fl_eval[of 10 "6874146696855551 / 4398046511104", OF _ _ _ _ this]
    show ?thesis by (simp add: p2_numeral)
  qed
  show ?thesis
    using a by (simp add: dataTXtime_of_def quotient_of_def redundancy_of_def nearest_int_ties_up_def
          example_defs b c)
qed

text \<open>
  A data rate of zero: the air time is infinite, the quotient is 0, and the pop returns
  the frame with the redundancy 0. A quotient that does not fit an \<open>int\<close> (a sleep
  interval of \<open>2^32\<close> seconds and an air time of one second): the pop returns the frame,
  and the redundancy is the \<open>INT_MIN\<close> of the conversion.
\<close>

lemma fl_half: "fl (1 / 2) = Finite (1 / 2)"
proof -
  have "rne (1 / 2 / pow2 (- 1 - 52)) = 4503599627370496"
    using rne_of_int[of 4503599627370496] by (simp add: p2_numeral)
  from fl_eval[of "- 1" "1 / 2", OF _ _ _ _ this] show ?thesis by (simp add: p2_numeral)
qed

lemma pop_with_zero_data_rate:
  "returned (popTxBuffer (example_queued\<lparr>radioDataRate := 0\<rparr>)) = Some (Some (example_frame 1))
   \<and> map_option dataTXtime (state_after (popTxBuffer (example_queued\<lparr>radioDataRate := 0\<rparr>))) = Some PlusInf
   \<and> map_option redundancy (state_after (popTxBuffer (example_queued\<lparr>radioDataRate := 0\<rparr>))) = Some 0"
  by (simp add: example_queued_def returned_def state_after_def example_defs fl_half)

lemma pop_with_redundancy_out_of_range:
  "returned (popTxBuffer (example_half\<lparr>sleepInterval := 4294967296\<rparr>))
     = Some (Some ((example_frame 1)\<lparr>mac_byteLength := 119\<rparr>))
   \<and> map_option redundancy (state_after (popTxBuffer (example_half\<lparr>sleepInterval := 4294967296\<rparr>)))
     = Some (- 2147483648)"
proof -
  have "rne (8589934593 / 2 / pow2 (32 - 52)) = 4503599627894784"
    using rne_of_int[of 4503599627894784] by (simp add: p2_numeral)
  from fl_eval[of 32 "8589934593 / 2", OF _ _ _ _ this]
  have a: "fl (8589934593 / 2) = Finite (8589934593 / 2)" by (simp add: p2_numeral)
  show ?thesis
    by (simp add: example_half_def returned_def state_after_def example_defs a)
qed

text \<open>
  The air time that the pop computes and the air time in exact arithmetic, for a frame of
  less than \<open>2^50\<close> bytes and a data rate between \<open>2^-500\<close> and \<open>2^500\<close>: the number of
  bits is exact, and the three roundings (of the data rate, of the bit rate and of the
  quotient) leave a relative error of at most \<open>2^-51\<close>.
\<close>

lemma air_time_accuracy:
  assumes "0 < mac_byteLength f + phyLayerOverhead s"
    and "mac_byteLength f + phyLayerOverhead s < 2 ^ 50"
    and "pow2 (- 500) \<le> radioDataRate s" and "radioDataRate s \<le> pow2 500"
  shows "\<exists>t. dataTXtime_of s f = Finite t \<and> \<bar>t - airTime s f\<bar> \<le> airTime s f / 2 ^ 51"
proof -
  define n where "n = mac_byteLength f + phyLayerOverhead s"
  define A where "A = real_of_int n * 8"
  define R where "R = radioDataRate s"
  define u where "u = 1000 * R"
  define eps :: real where "eps = 1 / 2 ^ 53"
  have eps: "0 < eps" "eps < 1" by (simp_all add: eps_def)
  have k1: "1 - 4 * eps \<le> (1 - eps) / (1 + eps) ^ 2" by (simp add: eps_def power2_eq_square)
  have k2: "(1 + eps) / (1 - eps) ^ 2 \<le> 1 + 4 * eps" by (simp add: eps_def power2_eq_square)
  have n0: "0 < n" "n < 2 ^ 50" using assms(1,2) by (simp_all add: n_def)
  have Rpos: "0 < R" using assms(3) p2_pos[of "- 500"] unfolding R_def by linarith
  have upos: "0 < u" using Rpos by (simp add: u_def)
  have Apos: "0 < A" using n0 by (simp add: A_def)
  \<comment> \<open>the data rate as a double\<close>
  from fl_near_range[of "- 500" R 500] assms(3,4)
  obtain r where r: "fl R = Finite r" and re: "\<bar>r - R\<bar> \<le> R / 2 ^ 53"
    by (auto simp: R_def)
  have rb: "R * (1 - eps) \<le> r" "r \<le> R * (1 + eps)"
    unfolding eps_def by (rule rel_bounds[OF re])+
  have rpos: "0 < r"
  proof -
    have "0 < R * (1 - eps)" using Rpos eps by simp
    with rb(1) show ?thesis by linarith
  qed
  \<comment> \<open>the bit rate\<close>
  have lo2: "pow2 (- 501) \<le> 1000 * r"
  proof -
    have "pow2 (- 501) * 2 = pow2 (- 500)" using p2_add[of "- 501" 1] by (simp add: p2_numeral)
    then have "pow2 (- 501) \<le> R * (1 / 2)" using assms(3) by (simp add: R_def)
    also have "\<dots> \<le> R * (1 - eps)" using Rpos by (intro mult_left_mono) (simp_all add: eps_def)
    also have "\<dots> \<le> r" by (rule rb(1))
    also have "\<dots> \<le> 1000 * r" using rpos by simp
    finally show ?thesis .
  qed
  have hi2: "1000 * r \<le> pow2 511"
  proof -
    have "1000 * r \<le> 1000 * (R * (1 + eps))" using rb(2) by simp
    also have "\<dots> = R * (1000 * (1 + eps))" by simp
    also have "\<dots> \<le> R * 2048" using Rpos by (intro mult_left_mono) (simp_all add: eps_def)
    also have "\<dots> \<le> pow2 500 * 2048" using assms(4) by (simp add: R_def)
    also have "\<dots> = pow2 511" using p2_add[of 500 11] by (simp add: p2_numeral)
    finally show ?thesis .
  qed
  from fl_near_range[OF lo2 hi2]
  obtain b where b: "fl (1000 * r) = Finite b" and be: "\<bar>b - 1000 * r\<bar> \<le> 1000 * r / 2 ^ 53"
    by auto
  have bb: "1000 * r * (1 - eps) \<le> b" "b \<le> 1000 * r * (1 + eps)"
    unfolding eps_def by (rule rel_bounds[OF be])+
  have b_lo: "u * (1 - eps) ^ 2 \<le> b"
  proof -
    have "u * (1 - eps) ^ 2 = 1000 * (R * (1 - eps)) * (1 - eps)"
      by (simp add: u_def power2_eq_square)
    also have "\<dots> \<le> 1000 * r * (1 - eps)"
      using rb(1) eps by (intro mult_right_mono) simp_all
    also have "\<dots> \<le> b" by (rule bb(1))
    finally show ?thesis .
  qed
  have b_hi: "b \<le> u * (1 + eps) ^ 2"
  proof -
    have "b \<le> 1000 * r * (1 + eps)" by (rule bb(2))
    also have "\<dots> \<le> 1000 * (R * (1 + eps)) * (1 + eps)"
      using rb(2) eps by (intro mult_right_mono) simp_all
    also have "\<dots> = u * (1 + eps) ^ 2" by (simp add: u_def power2_eq_square)
    finally show ?thesis .
  qed
  have lpos: "0 < u * (1 - eps) ^ 2" using upos eps by simp
  have bpos: "0 < b" using b_lo lpos by linarith
  \<comment> \<open>the number of bits\<close>
  have a1: "d_of_int n = Finite (real_of_int n)"
    unfolding d_of_int_def using n0 by (intro fl_of_int) simp_all
  have a2: "fl (real_of_int n * 8) = Finite (real_of_int n * 8)"
  proof -
    have "fl (real_of_int (n * 8)) = Finite (real_of_int (n * 8))"
      using n0 by (intro fl_of_int) simp_all
    then show ?thesis by simp
  qed
  \<comment> \<open>the quotient\<close>
  have lo3: "pow2 (- 509) \<le> A / b"
  proof -
    have "b \<le> pow2 511 * 2"
    proof -
      have "b \<le> 1000 * r * (1 + eps)" by (rule bb(2))
      also have "\<dots> \<le> pow2 511 * (1 + eps)" using hi2 eps by (intro mult_right_mono) simp_all
      also have "\<dots> \<le> pow2 511 * 2" using eps by (intro mult_left_mono) simp_all
      finally show ?thesis .
    qed
    also have "pow2 511 * 2 = pow2 512" using p2_add[of 511 1] by (simp add: p2_numeral)
    finally have "b \<le> pow2 512" .
    have "pow2 (- 509) * pow2 512 = pow2 3" using p2_add[of "- 509" 512] by simp
    then have "pow2 (- 509) * pow2 512 = 8" by (simp add: p2_numeral)
    moreover have "8 \<le> A" using n0 by (simp add: A_def)
    ultimately have "pow2 (- 509) * pow2 512 \<le> A" by simp
    moreover have "pow2 (- 509) * b \<le> pow2 (- 509) * pow2 512"
      using \<open>b \<le> pow2 512\<close> by (intro mult_left_mono) simp_all
    ultimately have "pow2 (- 509) * b \<le> A" by linarith
    then show ?thesis using bpos by (simp add: pos_le_divide_eq)
  qed
  have hi3: "A / b \<le> pow2 555"
  proof -
    have "pow2 (- 502) \<le> b"
    proof -
      have "pow2 (- 502) * 2 = pow2 (- 501)" using p2_add[of "- 502" 1] by (simp add: p2_numeral)
      then have "pow2 (- 502) = pow2 (- 501) * (1 / 2)" by simp
      also have "\<dots> \<le> 1000 * r * (1 / 2)" using lo2 by (intro mult_right_mono) simp_all
      also have "\<dots> \<le> 1000 * r * (1 - eps)" using rpos by (intro mult_left_mono) (simp_all add: eps_def)
      also have "\<dots> \<le> b" by (rule bb(1))
      finally show ?thesis .
    qed
    have "A \<le> 2 ^ 53"
    proof -
      have "real_of_int n \<le> real_of_int (2 ^ 50)" using n0(2) by simp
      then show ?thesis by (simp add: A_def)
    qed
    also have "(2::real) ^ 53 = pow2 555 * pow2 (- 502)" using p2_add[of 555 "- 502"] by (simp add: p2_numeral)
    also have "\<dots> \<le> pow2 555 * b" using \<open>pow2 (- 502) \<le> b\<close> by (intro mult_left_mono) simp_all
    finally show ?thesis using bpos by (simp add: pos_divide_le_eq)
  qed
  from fl_near_range[OF lo3 hi3]
  obtain t where t: "fl (A / b) = Finite t" and te: "\<bar>t - A / b\<bar> \<le> A / b / 2 ^ 53"
    by auto
  have tb: "A / b * (1 - eps) \<le> t" "t \<le> A / b * (1 + eps)"
    unfolding eps_def by (rule rel_bounds[OF te])+
  have w: "wrap64 n = n" using n0 by (intro wrap64_id) simp_all
  have val: "dataTXtime_of s f = Finite t"
    using a1 a2 r b t bpos
    by (simp add: dataTXtime_of_def n_def[symmetric] R_def[symmetric] A_def w)
  \<comment> \<open>the three roundings together\<close>
  define E where "E = A / u"
  have Epos: "0 < E" using Apos upos by (simp add: E_def)
  have q_lo: "E / (1 + eps) ^ 2 \<le> A / b"
  proof -
    have "A / (u * (1 + eps) ^ 2) \<le> A / b"
      using b_hi bpos Apos by (intro divide_left_mono) (simp_all add: less_imp_le)
    then show ?thesis by (simp add: E_def divide_divide_eq_left)
  qed
  have q_hi: "A / b \<le> E / (1 - eps) ^ 2"
  proof -
    have "A / b \<le> A / (u * (1 - eps) ^ 2)"
      using b_lo lpos Apos bpos by (intro divide_left_mono) (simp_all add: less_imp_le)
    then show ?thesis by (simp add: E_def divide_divide_eq_left)
  qed
  have t_lo: "E * (1 - 4 * eps) \<le> t"
  proof -
    have "E * (1 - 4 * eps) \<le> E * ((1 - eps) / (1 + eps) ^ 2)"
      using k1 Epos by (intro mult_left_mono) simp_all
    also have "\<dots> = E / (1 + eps) ^ 2 * (1 - eps)" by simp
    also have "\<dots> \<le> A / b * (1 - eps)" using q_lo eps by (intro mult_right_mono) simp_all
    also have "\<dots> \<le> t" by (rule tb(1))
    finally show ?thesis .
  qed
  have t_hi: "t \<le> E * (1 + 4 * eps)"
  proof -
    have "t \<le> A / b * (1 + eps)" by (rule tb(2))
    also have "\<dots> \<le> E / (1 - eps) ^ 2 * (1 + eps)" using q_hi eps by (intro mult_right_mono) simp_all
    also have "\<dots> = E * ((1 + eps) / (1 - eps) ^ 2)" by simp
    also have "\<dots> \<le> E * (1 + 4 * eps)" using k2 Epos by (intro mult_left_mono) simp_all
    finally show ?thesis .
  qed
  have EE: "airTime s f = E" by (simp add: airTime_def A_def u_def n_def R_def E_def)
  define d where "d = E / 2 ^ 51"
  have "E * (1 - 4 * eps) = E - d" "E * (1 + 4 * eps) = E + d"
    by (simp_all add: algebra_simps eps_def d_def)
  with t_lo t_hi have "E - d \<le> t" "t \<le> E + d" by simp_all
  then have "\<bar>t - E\<bar> \<le> d" by linarith
  then show ?thesis using val EE by (auto simp: d_def)
qed


lemma sendCopies_eq:
  assumes "dataTXtime s = Finite t" "redundancy s < 2147483647"
  shows "sendCopies (Some f) i s =
     Inr (s\<lparr>toRadioModule := toRadioModule s @ concat (map (burst s t f) [i..redundancy s])\<rparr>)"
  using assms
proof (induction "Some f" i s rule: sendCopies.induct)
  case (1 i s)
  have tv: "timeValue (dataTXtime s) = Inr t" using "1.prems"(1) by (simp add: timeValue_def)
  show ?case
  proof (cases "i \<le> redundancy s")
    case True
    let ?s1 = "sendDelayed (MacFrame f) (DRIFTED_TIME s (real_of_int i * t)) s"
    let ?s2 = "sendDelayed (ControlMessage MAC_2_RADIO_ENTER_TX 0)
                 (DRIFTED_TIME ?s1 (real_of_int i * t) + epsilon ?s1) ?s1"
    have st: "setRadioState MAC_2_RADIO_ENTER_TX
                 (DRIFTED_TIME ?s1 (real_of_int i * t) + epsilon ?s1) ?s1 = Inr ?s2"
      by (simp add: setRadioState_def)
    have ni: "i \<noteq> 2147483647" using True "1.prems"(2) by simp
    have t2: "dataTXtime ?s2 = Finite t" using "1.prems"(1) by (simp add: sendDelayed_def)
    have r: "redundancy ?s2 = redundancy s" by (simp add: sendDelayed_def)
    have r2: "redundancy ?s2 < 2147483647" using "1.prems"(2) r by simp
    have ih: "sendCopies (Some f) (i + 1) ?s2 =
        Inr (?s2\<lparr>toRadioModule := toRadioModule ?s2 @ concat (map (burst ?s2 t f) [i + 1..redundancy ?s2])\<rparr>)"
      using "1.hyps" [OF True refl tv refl st ni t2 r2] .
    have b: "burst ?s2 t f = burst s t f"
      by (rule ext) (simp add: burst_def sendDelayed_def DRIFTED_TIME_def)
    have out: "toRadioModule ?s2 = toRadioModule s @ burst s t f i"
      by (simp add: burst_def sendDelayed_def DRIFTED_TIME_def)
    have up: "[i..redundancy s] = i # [i + 1..redundancy s]"
      using True by (simp add: upto_rec1)
    have "sendCopies (Some f) i s = sendCopies (Some f) (i + 1) ?s2"
      using True st tv ni by (subst sendCopies.simps) (simp add: Let_def)
    also have "\<dots> = Inr (?s2\<lparr>toRadioModule := toRadioModule s @ burst s t f i
                                   @ concat (map (burst s t f) [i + 1..redundancy s])\<rparr>)"
      unfolding ih b r out by simp
    also have "\<dots> = Inr (s\<lparr>toRadioModule := toRadioModule s @ concat (map (burst s t f) [i..redundancy s])\<rparr>)"
      unfolding up by (simp add: sendDelayed_def)
    finally show ?thesis .
  next
    case False
    then have "[i..redundancy s] = []" by simp
    then show ?thesis using False by (subst sendCopies.simps) simp
  qed
qed

text \<open>The same for any air time, in the form in which a run of the node is evaluated.\<close>

lemma sendCopies_finite:
  assumes "redundancy s < 2147483647"
  shows "sendCopies (Some f) i s =
     (case timeValue (dataTXtime s) of
        Inr t \<Rightarrow> Inr (s\<lparr>toRadioModule := toRadioModule s @ concat (map (burst s t f) [i..redundancy s])\<rparr>)
      | Inl e \<Rightarrow> if i \<le> redundancy s then Inl e else Inr s)"
proof (cases "timeValue (dataTXtime s)")
  case (Inl e)
  then show ?thesis by (subst sendCopies.simps) simp
next
  case (Inr t)
  then have "dataTXtime s = Finite t" by (cases "dataTXtime s") (simp_all add: timeValue_def)
  from sendCopies_eq[OF this assms] Inr show ?thesis by simp
qed











section \<open>The channel found busy, and a frame received\<close>

lemma cancelIfPending_eq:
  "cancelIfPending m s = s\<lparr>fes := filter (\<lambda>e. Some (ptr e) \<noteq> m) (fes s)\<rparr>"
proof (cases m)
  case None
  then show ?thesis by (simp add: cancelIfPending_def)
next
  case (Some p)
  show ?thesis
  proof (cases "isScheduled p s")
    case True
    with Some show ?thesis by (simp add: cancelIfPending_def cancelAndDelete_def)
  next
    case False
    then have "filter (\<lambda>e. ptr e \<noteq> p) (fes s) = fes s"
      by (auto simp: isScheduled_def filter_id_conv)
    with Some False show ?thesis by (simp add: cancelIfPending_def)
  qed
qed

text \<open>\<open>atoi\<close> of a number that does not fit an \<open>int\<close>: the low 32 bits.\<close>

lemma atoi_wraps: "atoi ''4294967295'' = - 1"
  by (simp add: atoi_def is_space_def is_digit_def wrap32_def clamp_long_def)

lemma wrap32_id: "- 2147483648 \<le> i \<Longrightarrow> i < 2147483648 \<Longrightarrow> wrap32 i = i"
  by (simp add: wrap32_def)

text \<open>
  A maximal frame size of \<open>2^27\<close> bytes: the product \<open>2 * maxMacFrameSize * 8\<close> is \<open>2^31\<close>,
  and as an \<open>int\<close> it is \<open>-2^31\<close>.
\<close>

lemma two_frames_product_wraps: "wrap32 (wrap32 (2 * 134217728) * 8) = - 2147483648"
  by (simp add: wrap32_def)

lemma expectRx_eq:
  assumes "radioDataRate s \<noteq> 0"
  shows "expectRx s = Inr (s\<lparr>
      fes := filter (\<lambda>e. Some (ptr e) \<noteq> dutyCycleWakeupMsg s \<and> Some (ptr e) \<noteq> dutyCycleSleepMsg s) (fes s)
             @ [\<lparr>ptr = nextPtr s, arrivalTime = simTime s + two_frames_window s * cpuClockDrift s,
                  content = ControlMessage MAC_SELF_SET_RADIO_SLEEP 0\<rparr>],
      macState := MAC_STATE_EXPECTING_RX,
      nextPtr := nextPtr s + 1,
      dutyCycleSleepMsg := Some (nextPtr s)\<rparr>)"
  using assms
  by (simp add: expectRx_def cancelIfPending_eq newMessage_def scheduleAt_def
        DRIFTED_TIME_def two_frames_window_def Let_def)

text \<open>
  The channel found free: when the carrier-sense-exit message arrives in
  \<open>MAC_STATE_CARRIER_SENSING\<close> with \<open>doTx\<close> set, the queue is left as it is and a
  \<open>MAC_SELF_CHECK_TX_BUFFER\<close> message, which runs \<open>sendData\<close>, is scheduled for the current
  time.
\<close>

lemma filter_not_pending:
  "\<not> pending m x \<Longrightarrow> filter (\<lambda>e. Some (ptr e) \<noteq> m) (fes x) = fes x"
  by (cases m) (auto simp: pending_def isScheduled_def filter_id_conv)

lemma cancel_and_null_wake:
  "(if pending (dutyCycleWakeupMsg a) a
    then (cancelIfPending (dutyCycleWakeupMsg a) a)\<lparr>dutyCycleWakeupMsg := None\<rparr> else a)
   = a\<lparr>fes := filter (\<lambda>e. Some (ptr e) \<noteq> dutyCycleWakeupMsg a) (fes a),
        dutyCycleWakeupMsg := (if pending (dutyCycleWakeupMsg a) a then None else dutyCycleWakeupMsg a)\<rparr>"
proof (cases "pending (dutyCycleWakeupMsg a) a")
  case True
  then show ?thesis by (simp add: cancelIfPending_eq)
next
  case False
  then show ?thesis by (simp add: filter_not_pending)
qed

lemma cancel_and_null_sleep:
  "(if pending (dutyCycleSleepMsg a) a
    then (cancelIfPending (dutyCycleSleepMsg a) a)\<lparr>dutyCycleSleepMsg := None\<rparr> else a)
   = a\<lparr>fes := filter (\<lambda>e. Some (ptr e) \<noteq> dutyCycleSleepMsg a) (fes a),
        dutyCycleSleepMsg := (if pending (dutyCycleSleepMsg a) a then None else dutyCycleSleepMsg a)\<rparr>"
proof (cases "pending (dutyCycleSleepMsg a) a")
  case True
  then show ?thesis by (simp add: cancelIfPending_eq)
next
  case False
  then show ?thesis by (simp add: filter_not_pending)
qed

lemma channel_free_schedules_check:
  assumes "\<not> disabled s" and "macState s = MAC_STATE_CARRIER_SENSING" and "doTx s"
  shows "\<exists>s'. handleMessage (ControlMessage MAC_SELF_EXIT_CARRIER_SENSE v) s = Inr s'
           \<and> macState s' = MAC_STATE_DEFAULT
           \<and> schedTXBuffer s' = schedTXBuffer s
           \<and> headTxBuffer s' = headTxBuffer s \<and> tailTxBuffer s' = tailTxBuffer s
           \<and> fes s' = filter (\<lambda>e. Some (ptr e) \<noteq> dutyCycleWakeupMsg s
                                \<and> Some (ptr e) \<noteq> dutyCycleSleepMsg s) (fes s)
                       @ [\<lparr>ptr = nextPtr s, arrivalTime = simTime s,
                           content = ControlMessage MAC_SELF_CHECK_TX_BUFFER 0\<rparr>]"
  using assms
  by (simp add: handleMessage_def carrierFree_def Let_def cancel_and_null_wake cancel_and_null_sleep
        scheduleNew_def newMessage_def scheduleAt_def
        del: if_split split del: if_split cong: if_cong)

text \<open>
  Claim C3: when the radio reports the channel busy while the state is
  \<open>MAC_STATE_CARRIER_SENSING\<close> or \<open>MAC_STATE_DEFAULT\<close> and \<open>doTx\<close> is set, the transmit
  queue is left as it is (slots, head and tail; \<open>doTx\<close> stays set), the carrier-sense-exit
  message and the two duty-cycle messages are taken out of the future event set, a new
  sleep message is scheduled after the air time of two frames of the maximal size at the
  bit rate of the radio, multiplied by the clock drift, and the state becomes
  \<open>MAC_STATE_EXPECTING_RX\<close>. The module is enabled, its data rate is positive, its clock
  drift is not negative, and its maximal frame size is between 0 and \<open>2^27 - 1\<close> bytes:
  the number of bits of two such frames fits an \<open>int\<close>, and the sleep message is not due
  before the current time.
\<close>

theorem carrier_busy_defers_pending_frame:
  assumes "\<not> disabled s"
    and "macState s = MAC_STATE_CARRIER_SENSING \<or> macState s = MAC_STATE_DEFAULT"
    and "doTx s"
    and "0 < radioDataRate s" and "0 \<le> cpuClockDrift s"
    and "0 \<le> maxMacFrameSize s" and "maxMacFrameSize s < 134217728"
  shows "\<exists>s'. handleMessage (ControlMessage RADIO_2_MAC_SENSED_CARRIER v) s = Inr s'
           \<and> schedTXBuffer s' = schedTXBuffer s
           \<and> headTxBuffer s' = headTxBuffer s \<and> tailTxBuffer s' = tailTxBuffer s
           \<and> doTx s'
           \<and> macState s' = MAC_STATE_EXPECTING_RX
           \<and> dutyCycleSleepMsg s' = Some (nextPtr s)
           \<and> fes s' = filter (\<lambda>e. Some (ptr e) \<noteq> selfExitCSMsg s
                                \<and> Some (ptr e) \<noteq> dutyCycleWakeupMsg s
                                \<and> Some (ptr e) \<noteq> dutyCycleSleepMsg s) (fes s)
                       @ [\<lparr>ptr = nextPtr s,
                           arrivalTime = simTime s
                             + real_of_int (2 * maxMacFrameSize s * 8) / (1000 * radioDataRate s)
                               * cpuClockDrift s,
                           content = ControlMessage MAC_SELF_SET_RADIO_SLEEP 0\<rparr>]
           \<and> simTime s \<le> simTime s
                 + real_of_int (2 * maxMacFrameSize s * 8) / (1000 * radioDataRate s) * cpuClockDrift s"
proof -
  let ?s1 = "if pending (selfExitCSMsg s) s
             then (cancelIfPending (selfExitCSMsg s) s)\<lparr>selfExitCSMsg := None\<rparr> else s"
  have hm: "handleMessage (ControlMessage RADIO_2_MAC_SENSED_CARRIER v) s = carrierBusy s"
    using assms(1) by (simp add: handleMessage_def)
  have f1: "fes ?s1 = filter (\<lambda>e. Some (ptr e) \<noteq> selfExitCSMsg s) (fes s)"
  proof (cases "pending (selfExitCSMsg s) s")
    case True
    then show ?thesis by (simp add: cancelIfPending_eq)
  next
    case False
    then have "filter (\<lambda>e. Some (ptr e) \<noteq> selfExitCSMsg s) (fes s) = fes s"
      by (cases "selfExitCSMsg s") (auto simp: pending_def isScheduled_def filter_id_conv)
    with False show ?thesis by simp
  qed
  have same: "macState ?s1 = macState s" "doTx ?s1 = doTx s" "radioDataRate ?s1 = radioDataRate s"
    "schedTXBuffer ?s1 = schedTXBuffer s" "headTxBuffer ?s1 = headTxBuffer s"
    "tailTxBuffer ?s1 = tailTxBuffer s" "nextPtr ?s1 = nextPtr s" "simTime ?s1 = simTime s"
    "dutyCycleWakeupMsg ?s1 = dutyCycleWakeupMsg s" "dutyCycleSleepMsg ?s1 = dutyCycleSleepMsg s"
    "cpuClockDrift ?s1 = cpuClockDrift s" "maxMacFrameSize ?s1 = maxMacFrameSize s"
    by (simp_all add: cancelIfPending_eq)
  have cb: "carrierBusy s = expectRx ?s1"
    using assms(2,3) same(1,2) by (simp add: carrierBusy_def Let_def)
  have rate: "radioDataRate ?s1 \<noteq> 0" using assms(4) same(3) by simp
  note ex = expectRx_eq[OF rate]
  have res: "handleMessage (ControlMessage RADIO_2_MAC_SENSED_CARRIER v) s = Inr (?s1\<lparr>
      fes := filter (\<lambda>e. Some (ptr e) \<noteq> dutyCycleWakeupMsg ?s1 \<and> Some (ptr e) \<noteq> dutyCycleSleepMsg ?s1) (fes ?s1)
             @ [\<lparr>ptr = nextPtr ?s1, arrivalTime = simTime ?s1 + two_frames_window ?s1 * cpuClockDrift ?s1,
                  content = ControlMessage MAC_SELF_SET_RADIO_SLEEP 0\<rparr>],
      macState := MAC_STATE_EXPECTING_RX,
      nextPtr := nextPtr ?s1 + 1,
      dutyCycleSleepMsg := Some (nextPtr ?s1)\<rparr>)" (is "_ = Inr ?s'")
    unfolding hm cb ex ..
  have p1: "wrap32 (2 * maxMacFrameSize s) = 2 * maxMacFrameSize s"
    using assms(6,7) by (intro wrap32_id) simp_all
  have p2: "wrap32 (2 * maxMacFrameSize s * 8) = 2 * maxMacFrameSize s * 8"
    using assms(6,7) by (intro wrap32_id) simp_all
  have w: "two_frames_window ?s1 = real_of_int (2 * maxMacFrameSize s * 8) / (1000 * radioDataRate s)"
    unfolding two_frames_window_def same p1 p2 ..
  have fes': "fes ?s' = filter (\<lambda>e. Some (ptr e) \<noteq> selfExitCSMsg s
                                \<and> Some (ptr e) \<noteq> dutyCycleWakeupMsg s
                                \<and> Some (ptr e) \<noteq> dutyCycleSleepMsg s) (fes s)
                       @ [\<lparr>ptr = nextPtr s,
                           arrivalTime = simTime s
                             + real_of_int (2 * maxMacFrameSize s * 8) / (1000 * radioDataRate s)
                               * cpuClockDrift s,
                           content = ControlMessage MAC_SELF_SET_RADIO_SLEEP 0\<rparr>]"
    unfolding same f1 w filter_filter by simp
  have keep: "schedTXBuffer ?s' = schedTXBuffer s" "headTxBuffer ?s' = headTxBuffer s"
    "tailTxBuffer ?s' = tailTxBuffer s" "doTx ?s' = doTx s"
    using same by simp_all
  have new: "macState ?s' = MAC_STATE_EXPECTING_RX" "dutyCycleSleepMsg ?s' = Some (nextPtr s)"
    using same by simp_all
  have "0 \<le> real_of_int (2 * maxMacFrameSize s * 8) / (1000 * radioDataRate s)"
    using assms(4,6) by simp
  then have "0 \<le> real_of_int (2 * maxMacFrameSize s * 8) / (1000 * radioDataRate s) * cpuClockDrift s"
    using assms(5) by (rule mult_nonneg_nonneg)
  then have due: "simTime s \<le> simTime s
                 + real_of_int (2 * maxMacFrameSize s * 8) / (1000 * radioDataRate s) * cpuClockDrift s"
    by linarith
  show ?thesis
    using res keep new fes' assms(3) due by blast
qed

text \<open>
  Claim C10: on a frame received from the radio (\<open>MAC_FRAME\<close>), whatever the state of
  the enabled module, the state becomes \<open>MAC_STATE_DEFAULT\<close>, the two duty-cycle messages
  are taken out of the future event set, and a sleep message is scheduled for the
  current time. The carrier-sense-exit message is not touched: when it was pending it is
  still pending, and will be delivered as a channel-free indication. The payload goes to
  the network module.
\<close>

theorem frame_reception_resets_state:
  assumes "\<not> disabled s" and "mac_kind f = MAC_FRAME" and "encapsulatedMsg f = Some nf"
  shows "\<exists>s'. handleMessage (MacFrame f) s = Inr s'
           \<and> macState s' = MAC_STATE_DEFAULT
           \<and> fes s' = filter (\<lambda>e. Some (ptr e) \<noteq> dutyCycleWakeupMsg s
                                \<and> Some (ptr e) \<noteq> dutyCycleSleepMsg s) (fes s)
                       @ [\<lparr>ptr = nextPtr s, arrivalTime = simTime s,
                           content = ControlMessage MAC_SELF_SET_RADIO_SLEEP 0\<rparr>]
           \<and> dutyCycleSleepMsg s' = Some (nextPtr s)
           \<and> selfExitCSMsg s' = selfExitCSMsg s
           \<and> (pending (selfExitCSMsg s) s \<and> selfExitCSMsg s \<noteq> dutyCycleWakeupMsg s
                \<and> selfExitCSMsg s \<noteq> dutyCycleSleepMsg s \<longrightarrow> pending (selfExitCSMsg s') s')
           \<and> toNetworkModule s' = toNetworkModule s @ [NetworkFrame nf]"
proof -
  let ?s' = "s\<lparr>macState := MAC_STATE_DEFAULT,
      fes := filter (\<lambda>e. Some (ptr e) \<noteq> dutyCycleWakeupMsg s \<and> Some (ptr e) \<noteq> dutyCycleSleepMsg s) (fes s)
             @ [\<lparr>ptr = nextPtr s, arrivalTime = simTime s,
                  content = ControlMessage MAC_SELF_SET_RADIO_SLEEP 0\<rparr>],
      nextPtr := nextPtr s + 1,
      dutyCycleSleepMsg := Some (nextPtr s),
      toNetworkModule := toNetworkModule s @ [NetworkFrame nf]\<rparr>"
  have hm: "handleMessage (MacFrame f) s = Inr ?s'"
    using assms
    by (simp add: handleMessage_def handleMacFrame_def cancelIfPending_eq newMessage_def
          scheduleAt_def sendToNetwork_def Let_def)
  have keep: "pending (selfExitCSMsg s) s \<and> selfExitCSMsg s \<noteq> dutyCycleWakeupMsg s
                \<and> selfExitCSMsg s \<noteq> dutyCycleSleepMsg s \<longrightarrow> pending (selfExitCSMsg ?s') ?s'"
    by (cases "selfExitCSMsg s") (auto simp: pending_def isScheduled_def)
  show ?thesis
    using hm keep by (intro exI[of _ ?s']) simp
qed

section \<open>The run of the concrete node\<close>

lemmas kernel_defs = deliver_def fire_def nextTimer_def handleMessage_def handleStartup_def
  dutyCycle_def SLEEP_def WAKEUP_def setRadioState_def sendDelayed_def sendToNetwork_def
  cancelIfPending_def cancelAndDelete_def isScheduled_def pending_def newMessage_def scheduleAt_def
  scheduleNew_def initiateCarrierSense_def performCarrierSense_def carrierBusy_def expectRx_def
  carrierFree_def sendData_def finishDataTransmission_def handleInitiateTx_def handleStartedTx_def
  handleMacFrame_def handleNetworkLayerFrame_def pushFrameIntoBuffer_def encapsulateNetworkFrame_def
  resolvDestination_def new_MAC_GenericFrame_def show_int_def atoi_def is_space_def is_digit_def
  BUFFER_IS_FULL_def getTXBufferSize_def dblrand_def DRIFTED_TIME_def CARRIER_SENSE_INTERVAL_def
  example_payload_def startup_def sendCopies_finite burst_def upto_rec1 timeValue_def wrap32_def
  clamp_long_def

lemma example_sensing_reached:
  "run_events trace_sensing (boot example_config) = Inr example_sensing"
  by (simp add: trace_sensing_def example_sensing_def kernel_defs example_defs stored_def)

lemma run_events_append:
  "run_events (xs @ ys) s = (case run_events xs s of Inl e \<Rightarrow> Inl e | Inr s1 \<Rightarrow> run_events ys s1)"
proof (induction xs arbitrary: s)
  case Nil
  then show ?case by simp
next
  case (Cons x xs)
  then show ?case by (cases x) (auto split: sum.splits option.splits)
qed

text \<open>
  In the run of the concrete node the channel is found free, and the frame is popped and
  sent: the air time is the double nearest to 0.3 s, the redundancy 3, and four copies
  leave with the delays 0, 2, 4 and 6 times this air time.
\<close>

lemma channel_free_run:
  "(case run_events (trace_sensing @ [Timer, Timer]) (boot example_config) of
      Inl e \<Rightarrow> False
    | Inr s \<Rightarrow> dataTXtime s = Finite tx_0_3 \<and> redundancy s = 3 \<and> BUFFER_IS_EMPTY s
              \<and> map fst (frames_to_radio (toRadioModule s)) = [0, 2 * tx_0_3, 4 * tx_0_3, 6 * tx_0_3]
              \<and> map snd (frames_to_radio (toRadioModule s))
                  = replicate 4 ((example_frame 3)\<lparr>encapsulatedMsg := Some example_payload\<rparr>))"
  by (simp add: run_events_append example_sensing_reached)
     (simp add: example_sensing_def kernel_defs example_defs stored_def eval_nat_numeral)

lemma example_sensing_fields:
  "\<not> disabled example_sensing" "macState example_sensing = MAC_STATE_CARRIER_SENSING"
  "doTx example_sensing" "radioDataRate example_sensing = 2" "maxMacFrameSize example_sensing = 100"
  "cpuClockDrift example_sensing = 2" "simTime example_sensing = 1 / 20000"
  "nextPtr example_sensing = 6" "toNetworkModule example_sensing = []"
  "dutyCycleSleepMsg example_sensing = Some 1" "dutyCycleWakeupMsg example_sensing = None"
  "selfExitCSMsg example_sensing = Some 3" "macBufferSize example_sensing = 1"
  "getTXBufferSize example_sensing = 1"
  "fes example_sensing =
     [\<lparr>ptr = 1, arrivalTime = 1 / 5, content = ControlMessage MAC_SELF_SET_RADIO_SLEEP 0\<rparr>,
      \<lparr>ptr = 3, arrivalTime = 1 / 10000 + 8796093 / 8796093022208,
        content = ControlMessage MAC_SELF_EXIT_CARRIER_SENSE 0\<rparr>,
      \<lparr>ptr = 5, arrivalTime = 201 / 20000, content = ControlMessage MAC_SELF_INITIATE_TX 0\<rparr>]"
  by (simp_all add: example_sensing_def example_defs getTXBufferSize_def)

text \<open>
  Witness of C3: the node that senses the carrier with a frame in its buffer. The frame
  stays, the sleep message 1 and the exit message 3 are gone, and the new sleep message
  is due 0.8 s times the drift 2 later.
\<close>

theorem carrier_busy_defers_pending_frame_witness:
  "\<not> disabled example_sensing \<and> macState example_sensing = MAC_STATE_CARRIER_SENSING
   \<and> doTx example_sensing \<and> 0 < radioDataRate example_sensing
   \<and> 0 \<le> cpuClockDrift example_sensing
   \<and> 0 \<le> maxMacFrameSize example_sensing \<and> maxMacFrameSize example_sensing < 134217728
   \<and> (\<exists>s'. handleMessage (ControlMessage RADIO_2_MAC_SENSED_CARRIER 0) example_sensing = Inr s'
          \<and> schedTXBuffer s' = schedTXBuffer example_sensing
          \<and> headTxBuffer s' = headTxBuffer example_sensing
          \<and> tailTxBuffer s' = tailTxBuffer example_sensing
          \<and> macState s' = MAC_STATE_EXPECTING_RX
          \<and> fes s' = [\<lparr>ptr = 5, arrivalTime = 201 / 20000, content = ControlMessage MAC_SELF_INITIATE_TX 0\<rparr>,
                       \<lparr>ptr = 6, arrivalTime = 1 / 20000 + 8 / 10 * 2,
                         content = ControlMessage MAC_SELF_SET_RADIO_SLEEP 0\<rparr>])"
proof -
  note f = example_sensing_fields
  have a: "macState example_sensing = MAC_STATE_CARRIER_SENSING \<or> macState example_sensing = MAC_STATE_DEFAULT"
    by (simp add: f)
  have r: "0 < radioDataRate example_sensing" "0 \<le> cpuClockDrift example_sensing"
    "0 \<le> maxMacFrameSize example_sensing" "maxMacFrameSize example_sensing < 134217728"
    by (simp_all add: f)
  from carrier_busy_defers_pending_frame[OF f(1) a f(3) r, of 0]
  show ?thesis using f by auto
qed

text \<open>
  Witness of C10: the same node, in \<open>MAC_STATE_CARRIER_SENSING\<close>, receives a frame. The
  state is \<open>MAC_STATE_DEFAULT\<close>, the sleep message 1 is replaced by one due now, and the
  exit message 3 is still in the future event set.
\<close>

theorem frame_reception_resets_state_witness:
  "\<not> disabled example_sensing \<and> mac_kind example_received = MAC_FRAME
   \<and> encapsulatedMsg example_received = Some example_payload
   \<and> macState example_sensing = MAC_STATE_CARRIER_SENSING
   \<and> pending (selfExitCSMsg example_sensing) example_sensing
   \<and> (\<exists>s'. handleMessage (MacFrame example_received) example_sensing = Inr s'
          \<and> macState s' = MAC_STATE_DEFAULT
          \<and> fes s' = [\<lparr>ptr = 3, arrivalTime = 1 / 10000 + 8796093 / 8796093022208,
                         content = ControlMessage MAC_SELF_EXIT_CARRIER_SENSE 0\<rparr>,
                       \<lparr>ptr = 5, arrivalTime = 201 / 20000, content = ControlMessage MAC_SELF_INITIATE_TX 0\<rparr>,
                       \<lparr>ptr = 6, arrivalTime = 1 / 20000,
                         content = ControlMessage MAC_SELF_SET_RADIO_SLEEP 0\<rparr>]
          \<and> pending (selfExitCSMsg s') s'
          \<and> toNetworkModule s' = [NetworkFrame example_payload])"
proof -
  note f = example_sensing_fields
  have k: "mac_kind example_received = MAC_FRAME" "encapsulatedMsg example_received = Some example_payload"
    by (simp_all add: example_received_def example_frame_def)
  have p: "pending (selfExitCSMsg example_sensing) example_sensing"
    by (simp add: f pending_def isScheduled_def)
  from frame_reception_resets_state[OF f(1) k]
  show ?thesis using f k p by auto
qed

section \<open>A payload that meets the full queue\<close>

lemma payload_at_full_queue_dropped:
  assumes "\<not> disabled s" and "net_kind nf = NET_FRAME" and "BUFFER_IS_FULL s"
  shows "handleMessage (NetworkFrame nf) s = Inr s"
  using assms by (simp add: handleMessage_def handleNetworkLayerFrame_def)

lemma push_at_full_queue_notifies:
  assumes "\<not> disabled s" and "mac_kind f = MAC_FRAME_SELF_PUSH_TX_BUFFER" and "BUFFER_IS_FULL s"
  shows "handleMessage (MacFrame f) s = Inr (rejected 1 s)"
  using assms by (simp add: handleMessage_def pushFrameIntoBuffer_def rejected_def sendToNetwork_def)

text \<open>
  Claim C6 says that a payload arriving at a full queue is rejected with exactly one
  buffer-full message to the network module. The run below: the buffer of the concrete
  node holds its one frame, a further payload arrives from the network module
  (\<open>NET_FRAME\<close>), and \<open>handleNetworkLayerFrame\<close> drops it. The queue is unchanged, and
  nothing is sent to the network module. (The buffer-full message is sent by
  \<open>pushFrameIntoBuffer\<close> only, lemma \<open>push_at_full_queue_notifies\<close>.)
\<close>

theorem payload_at_full_queue_not_notified:
  "run_events trace_sensing (boot example_config) = Inr example_sensing
   \<and> getTXBufferSize example_sensing = macBufferSize example_sensing
   \<and> toNetworkModule example_sensing = []
   \<and> run_events [External (3 / 50000) (NetworkFrame example_payload)] example_sensing
       = Inr (example_sensing\<lparr>simTime := 3 / 50000\<rparr>)
   \<and> toNetworkModule (example_sensing\<lparr>simTime := 3 / 50000\<rparr>) = []"
  using example_sensing_reached
  by (simp add: example_sensing_fields)
     (simp add: example_sensing_def kernel_defs example_defs)

section \<open>The timers after a transmission\<close>

lemma finishDataTransmission_wake:
  assumes "dataTXtime s = Finite t"
  shows "\<exists>s' p. finishDataTransmission s = Inr s'
     \<and> armed MAC_SELF_WAKEUP_RADIO s' =
         armed MAC_SELF_WAKEUP_RADIO s
         @ [\<lparr>ptr = p, arrivalTime = simTime s + sleepInterval s,
             content = ControlMessage MAC_SELF_WAKEUP_RADIO 0\<rparr>]"
  using assms
  by (simp add: finishDataTransmission_def setRadioState_def sendDelayed_def newMessage_def
        scheduleAt_def scheduleNew_def armed_def timeValue_def Let_def)

text \<open>
  Claim C7 says that at most one wake message is armed at any time. The run below: the
  radio reports the end of the first copy of the burst, and \<open>finishDataTransmission\<close>
  arms the wake message 7; it reports the end of the second copy, and
  \<open>finishDataTransmission\<close> arms the wake message 8 without cancelling the message 7.
  Two wake messages are armed.
\<close>

theorem two_wake_timers_armed:
  "timers_after MAC_SELF_WAKEUP_RADIO trace_two_bursts (boot example_config)
   = Some [\<lparr>ptr = 7, arrivalTime = 13 / 10, content = ControlMessage MAC_SELF_WAKEUP_RADIO 0\<rparr>,
           \<lparr>ptr = 8, arrivalTime = 1901 / 1000, content = ControlMessage MAC_SELF_WAKEUP_RADIO 0\<rparr>]"
  by (simp add: timers_after_def trace_two_bursts_def trace_one_burst_def run_events_append
        example_sensing_reached armed_def)
     (simp add: example_sensing_def kernel_defs example_defs stored_def armed_def)

text \<open>
  Claim C8 says that every delay of a self-message is multiplied by the clock drift. The
  run below: at the end of the first copy, at the time 0.3, \<open>finishDataTransmission\<close>
  arms the wake message for the time 0.3 + \<open>sleepInterval\<close>, while the drifted sleep
  interval of the node is 2.
\<close>

theorem wake_after_transmission_not_drifted:
  "timers_after MAC_SELF_WAKEUP_RADIO trace_one_burst (boot example_config)
     = Some [\<lparr>ptr = 7, arrivalTime = 3 / 10 + 1, content = ControlMessage MAC_SELF_WAKEUP_RADIO 0\<rparr>]
   \<and> sleepInterval example_config = 1
   \<and> DRIFTED_TIME example_config (sleepInterval example_config) = 2"
  by (simp add: timers_after_def trace_one_burst_def run_events_append
        example_sensing_reached armed_def)
     (simp add: example_sensing_def kernel_defs example_defs stored_def armed_def)

end
